theory Spec2Isabelle
  imports Complex_Main "HOL-Library.Word"
begin

unbundle bit_operations_syntax

chapter \<open>The embedding\<close>

section \<open>Numbers, errors and objects\<close>

text \<open>
  The distance type \<open>dist_t\<close> of the library is \<open>int\<close>, \<open>float\<close> or \<open>double\<close>; the pruner
  computes its bounds in \<open>double\<close>, the projection wrapper its candidate count in \<open>float\<close>
  and the binarized-permutation wrapper in \<open>double\<close>. A finite floating-point value is
  the real number it denotes, and every floating-point operation is the exact operation
  followed by rounding to the format: to nearest, ties to even, with the subnormal range
  of the format. Overflow to infinity, NaN and the sign of zero are outside the model,
  and so is the overflow of an \<open>int\<close> subtraction. A \<open>size_t\<close> is a natural number below
  \<open>2 ^ 64\<close>, with the wrap-around of a product or sum written out; an \<open>unsigned\<close> loop
  counter is a 32-bit word.
\<close>

record float_format =
  precision :: nat
  emin :: int

definition binary32 :: float_format where
  "binary32 = \<lparr>precision = 24, emin = -126\<rparr>"

definition binary64 :: float_format where
  "binary64 = \<lparr>precision = 53, emin = -1022\<rparr>"

text \<open>The integer nearest to \<open>q\<close>, the even one of the two when \<open>q\<close> lies halfway.\<close>
definition round_half_even :: "real \<Rightarrow> int" where
  "round_half_even q =
     (let f = \<lfloor>q\<rfloor>
      in if q - of_int f < 1 / 2 then f
         else if 1 / 2 < q - of_int f then f + 1
         else if even f then f else f + 1)"

text \<open>The distance between neighbouring values of the format around \<open>x\<close>.\<close>
definition ulp_at :: "float_format \<Rightarrow> real \<Rightarrow> real" where
  "ulp_at F x = 2 powi (max \<lfloor>log 2 \<bar>x\<bar>\<rfloor> (emin F) - int (precision F) + 1)"

definition round_to :: "float_format \<Rightarrow> real \<Rightarrow> real" where
  "round_to F x = (if x = 0 then 0 else of_int (round_half_even (x / ulp_at F x)) * ulp_at F x)"

text \<open>The instances of the template parameter \<open>dist_t\<close>, and the rounding of its results.\<close>
datatype dist_type = dist_int | dist_float | dist_double

definition round_dist :: "dist_type \<Rightarrow> real \<Rightarrow> real" where
  "round_dist T x =
     (case T of dist_int \<Rightarrow> x | dist_float \<Rightarrow> round_to binary32 x | dist_double \<Rightarrow> round_to binary64 x)"

text \<open>The product of two \<open>double\<close> values, and of two \<open>float\<close> values.\<close>
definition times_double :: "real \<Rightarrow> real \<Rightarrow> real" where
  "times_double a b = round_to binary64 (a * b)"

definition times_float :: "real \<Rightarrow> real \<Rightarrow> real" where
  "times_float a b = round_to binary32 (a * b)"

text \<open>The conversion of a \<open>size_t\<close> to \<open>float\<close> and to \<open>double\<close>.\<close>
definition float_of_size_t :: "nat \<Rightarrow> real" where
  "float_of_size_t n = round_to binary32 (real n)"

definition double_of_size_t :: "nat \<Rightarrow> real" where
  "double_of_size_t n = round_to binary64 (real n)"

datatype error = runtime_error string | fatal string | undefined_behaviour

text \<open>
  Modelled from the spec: the \<open>LOG\<close> macro (logging.h) is not among the sources. The spec
  calls the conditions logged this way fatal to the operation, and the callers rely on
  it (they go on to use what the check guarded): \<open>LOG(LIB_FATAL)\<close> ends the run with its
  message.
\<close>
definition LOG_LIB_FATAL :: "string \<Rightarrow> error" where
  "LOG_LIB_FATAL msg = fatal msg"

text \<open>
  \<open>static_cast<size_t>\<close> of a floating-point value truncates towards zero; the result is
  defined only when the truncated value fits a \<open>size_t\<close>.
\<close>
definition static_cast_size_t :: "real \<Rightarrow> nat option" where
  "static_cast_size_t x = (if -1 < x \<and> x < 2 ^ 64 then Some (nat \<lfloor>x\<rfloor>) else None)"

text \<open>
  An object carries an identifier, a label and a payload. The width of \<open>IdType\<close> is
  declared in object.h, which is not among the sources; identifiers are natural numbers.
\<close>
record 'a Object =
  obj_id :: nat
  obj_label :: int
  obj_data :: 'a

text \<open>\<open>VectorSpace::CreateObjFromVect\<close> and \<open>SpaceBitHamming::CreateObjFromVect\<close>.\<close>
definition CreateObjFromVect :: "nat \<Rightarrow> int \<Rightarrow> 'a \<Rightarrow> 'a Object" where
  "CreateObjFromVect ident label InpVect = \<lparr>obj_id = ident, obj_label = label, obj_data = InpVect\<rparr>"

section \<open>The polynomial pruning oracle (searchoracle.h)\<close>

datatype VPTreeVisitDecision = kVisitLeft | kVisitRight | kVisitBoth

text \<open>The exponents are \<open>unsigned\<close>; only the power is computed with them.\<close>
record PolynomialPruner =
  alpha_left :: real
  exp_left :: nat
  alpha_right :: real
  exp_right :: nat

text \<open>
  Modelled from the spec: \<open>EfficientPow\<close> is declared in pow.h, which is not among the
  sources. The spec writes the pruning bound as \<open>\<alpha> \<sqdot> \<Delta>^e\<close> and has the arithmetic of the
  pruner done in floating point, so \<open>EfficientPow Base Exp\<close> is the \<open>Exp\<close>-th power of
  \<open>Base\<close> as a \<open>double\<close>.
\<close>
definition EfficientPow :: "real \<Rightarrow> nat \<Rightarrow> real" where
  "EfficientPow Base Exp = round_to binary64 (Base ^ Exp)"

text \<open>
  \<open>PolynomialPruner<dist_t>::Classify\<close>, for the distance type \<open>T\<close>. The difference of the
  two distances is computed in \<open>dist_t\<close> and then widened to \<open>double\<close> (which is exact);
  the power and the product are \<open>double\<close> operations. The two blocks of the source run
  one after the other; each may return early, which is the \<open>Some\<close> of the block.
\<close>
definition Classify_left ::
  "dist_type \<Rightarrow> PolynomialPruner \<Rightarrow> real \<Rightarrow> real \<Rightarrow> real \<Rightarrow> VPTreeVisitDecision option" where
  "Classify_left T p distQueryPivot MaxDist MedianDist =
     (if distQueryPivot \<le> MedianDist then
        (let diff = round_dist T (MedianDist - distQueryPivot);
             expDiff = EfficientPow diff (exp_left p)
         in if MaxDist < times_double (alpha_left p) expDiff then Some kVisitLeft else None)
      else None)"

definition Classify_right ::
  "dist_type \<Rightarrow> PolynomialPruner \<Rightarrow> real \<Rightarrow> real \<Rightarrow> real \<Rightarrow> VPTreeVisitDecision option" where
  "Classify_right T p distQueryPivot MaxDist MedianDist =
     (if distQueryPivot \<ge> MedianDist then
        (let diff = round_dist T (distQueryPivot - MedianDist);
             expDiff = EfficientPow diff (exp_right p)
         in if MaxDist < times_double (alpha_right p) expDiff then Some kVisitRight else None)
      else None)"

definition Classify ::
  "dist_type \<Rightarrow> PolynomialPruner \<Rightarrow> real \<Rightarrow> real \<Rightarrow> real \<Rightarrow> VPTreeVisitDecision" where
  "Classify T p distQueryPivot MaxDist MedianDist =
     (case Classify_left T p distQueryPivot MaxDist MedianDist of
        Some d \<Rightarrow> d
      | None \<Rightarrow>
          (case Classify_right T p distQueryPivot MaxDist MedianDist of
             Some d \<Rightarrow> d
           | None \<Rightarrow> kVisitBoth))"

text \<open>The pruner a \<open>PolynomialPruner\<close> constructor builds: all four parameters are 1.\<close>
definition default_pruner :: PolynomialPruner where
  "default_pruner = \<lparr>alpha_left = 1, exp_left = 1, alpha_right = 1, exp_right = 1\<rparr>"

section \<open>The projection VP-tree wrapper (proj\_vptree.h, proj\_vptree.cc)\<close>

text \<open>
  The wrapper over objects of type \<open>'o\<close>, projected to payloads of type \<open>'p\<close>, with an
  underlying VP-tree of type \<open>'ix\<close>. \<open>projData\<close> is a vector of pointers: \<open>None\<close> is the
  null pointer \<open>resize\<close> leaves. \<open>VPTreeIndex\<close> is \<open>None\<close> until the constructor has built
  the tree.
\<close>
record ('o, 'p, 'ix) ProjectionVPTree =
  data :: "'o list"
  knn_amp :: nat
  db_scan_frac :: real
  projData :: "'p Object option list"
  VPTreeIndex :: "'ix option"

text \<open>
  The two parameters of an \<open>AnyParamManager\<close> the wrapper reads, each present or absent,
  and the remaining ones, which go to the VP-tree.
\<close>
record AnyParamManager =
  dbScanFrac :: "real option"
  knnAmp :: "nat option"
  otherParams :: "(string \<times> string) list"

definition hasParam_dbScanFrac :: "AnyParamManager \<Rightarrow> bool" where
  "hasParam_dbScanFrac pmgr = (dbScanFrac pmgr \<noteq> None)"

definition hasParam_knnAmp :: "AnyParamManager \<Rightarrow> bool" where
  "hasParam_knnAmp pmgr = (knnAmp pmgr \<noteq> None)"

text \<open>
  \<open>ProjectionVPTree::computeDbScan\<close>. \<open>db_scan_frac_\<close> is a \<open>float\<close>: the size of the dataset
  is converted to \<open>float\<close>, the product is a \<open>float\<close> product, and the cast truncates it.
\<close>
definition computeDbScan :: "('o, 'p, 'ix) ProjectionVPTree \<Rightarrow> nat \<Rightarrow> nat option" where
  "computeDbScan st K =
     (if knn_amp st \<noteq> 0 then Some (min ((K * knn_amp st) mod 2 ^ 64) (length (data st)))
      else static_cast_size_t (times_float (db_scan_frac st) (float_of_size_t (length (data st)))))"

text \<open>
  \<open>ProjectionVPTree::SetQueryTimeParamsInternal\<close>. \<open>SetQueryTimeParams\<close> of the
  underlying VP-tree (vptree.h, not among the sources) is the parameter \<open>vset\<close>; it may
  throw.
\<close>
definition SetQueryTimeParamsInternal ::
  "('ix \<Rightarrow> AnyParamManager \<Rightarrow> error + 'ix) \<Rightarrow> ('o, 'p, 'ix) ProjectionVPTree \<Rightarrow> AnyParamManager
     \<Rightarrow> error + ('o, 'p, 'ix) ProjectionVPTree" where
  "SetQueryTimeParamsInternal vset st pmgr =
     (case (case VPTreeIndex st of
              None \<Rightarrow> Inr None
            | Some ix \<Rightarrow> (case vset ix pmgr of Inl e \<Rightarrow> Inl e | Inr ix' \<Rightarrow> Inr (Some ix'))) of
        Inl e \<Rightarrow> Inl e
      | Inr ix' \<Rightarrow>
          if hasParam_dbScanFrac pmgr \<and> hasParam_knnAmp pmgr then
            Inl (runtime_error ''One shouldn't specify both parameters dbScanFrac and knnAmp'')
          else
            (let st1 = st\<lparr>VPTreeIndex := ix'\<rparr>;
                 st2 = (if hasParam_knnAmp pmgr then st1\<lparr>db_scan_frac := 0\<rparr>
                        else st1\<lparr>knn_amp := 0\<rparr>);
                 st3 = (if \<not> hasParam_dbScanFrac pmgr \<and> \<not> hasParam_knnAmp pmgr
                        then st2\<lparr>db_scan_frac := 0, knn_amp := 0\<rparr> else st2);
                 st4 = (case dbScanFrac pmgr of None \<Rightarrow> st3 | Some v \<Rightarrow> st3\<lparr>db_scan_frac := v\<rparr>);
                 st5 = (case knnAmp pmgr of None \<Rightarrow> st4 | Some v \<Rightarrow> st4\<lparr>knn_amp := v\<rparr>)
             in Inr st5))"

text \<open>
  \<open>ProjectionVPTree::ProjectOneVect\<close>; \<open>compProj\<close> is the projection (projection.h, not
  among the sources).
\<close>
definition ProjectOneVect :: "('o \<Rightarrow> 'p) \<Rightarrow> nat \<Rightarrow> 'o \<Rightarrow> 'p Object" where
  "ProjectOneVect compProj targSpaceId pSrcObj =
     (let targVect = compProj pSrcObj in CreateObjFromVect targSpaceId (-1) targVect)"

text \<open>The loop of the constructor that fills \<open>projData\<close> after \<open>resize\<close>.\<close>
definition fill_projData :: "('o \<Rightarrow> 'p) \<Rightarrow> 'o list \<Rightarrow> 'p Object option list" where
  "fill_projData compProj dat =
     fold (\<lambda>ident pd. pd[ident := Some (ProjectOneVect compProj ident (dat ! ident))])
          [0..<length dat] (replicate (length dat) None)"

text \<open>
  The constructor. It first reads the required parameters \<open>projDim\<close> and \<open>projType\<close>
  (\<open>GetParamRequired\<close> of params.h, not among the sources, is the parameter
  \<open>getRequired\<close>; it throws when one is missing), then sets the query-time parameters.
  Creating the projection and the target space may throw; that part is the parameter
  \<open>setup\<close>, which yields the projection. \<open>mkVPTree\<close> builds the VP-tree over the
  projected objects.
\<close>
definition ProjectionVPTree_ctor ::
  "('ix \<Rightarrow> AnyParamManager \<Rightarrow> error + 'ix) \<Rightarrow> (AnyParamManager \<Rightarrow> error + unit)
     \<Rightarrow> (error + ('o \<Rightarrow> 'p)) \<Rightarrow> ('p Object option list \<Rightarrow> 'ix) \<Rightarrow> 'o list \<Rightarrow> AnyParamManager
     \<Rightarrow> error + ('o, 'p, 'ix) ProjectionVPTree" where
  "ProjectionVPTree_ctor vset getRequired setup mkVPTree dat pmgr =
     (let st0 = \<lparr>data = dat, knn_amp = 0, db_scan_frac = 0, projData = [], VPTreeIndex = None\<rparr>
      in case getRequired pmgr of
           Inl e \<Rightarrow> Inl e
         | Inr _ \<Rightarrow>
             (case SetQueryTimeParamsInternal vset st0 pmgr of
                Inl e \<Rightarrow> Inl e
              | Inr st1 \<Rightarrow>
                  (case setup of
                     Inl e \<Rightarrow> Inl e
                   | Inr compProj \<Rightarrow>
                       (let pd = fill_projData compProj dat
                        in Inr (st1\<lparr>projData := pd, VPTreeIndex := Some (mkVPTree pd)\<rparr>)))))"

text \<open>
  The re-ranking loop of \<open>Search\<close>: the surrogate result queue, in the order it is
  popped, gives the original objects handed to \<open>CheckAndAddToResult\<close>. Reading \<open>data\<close>
  past its end has no defined behaviour.
\<close>
fun rerank :: "'o list \<Rightarrow> 'p Object list \<Rightarrow> error + 'o list" where
  "rerank dat [] = Inr []"
| "rerank dat (TopObject # ResQueue) =
     (let ident = obj_id TopObject
      in if ident < length dat then
           (case rerank dat ResQueue of
              Inl e \<Rightarrow> Inl e
            | Inr res \<Rightarrow> Inr (dat ! ident # res))
         else Inl undefined_behaviour)"

text \<open>
  \<open>ProjectionVPTree::Search(KNNQuery)\<close>. The k-NN search of the underlying VP-tree is the
  parameter \<open>vpsearch\<close>: given the tree, the projected query and the number of
  candidates, it yields the result queue in the order it is popped.
\<close>
definition Search_KNN ::
  "('o \<Rightarrow> 'p) \<Rightarrow> ('ix \<Rightarrow> 'p Object \<Rightarrow> nat \<Rightarrow> 'p Object list)
     \<Rightarrow> ('o, 'p, 'ix) ProjectionVPTree \<Rightarrow> 'o \<Rightarrow> nat \<Rightarrow> error + 'o list" where
  "Search_KNN compProj vpsearch st queryObj K =
     (case computeDbScan st K of
        None \<Rightarrow> Inl undefined_behaviour
      | Some db_scan_qty \<Rightarrow>
          if db_scan_qty = 0 then
            Inl (runtime_error ''You need to specify knnAmp > 0 or a sufficiently large dbScanFrac!'')
          else
            (case VPTreeIndex st of
               None \<Rightarrow> Inl undefined_behaviour
             | Some ix \<Rightarrow>
                 (let QueryObject = ProjectOneVect compProj 0 queryObj;
                      ResQueue = vpsearch ix QueryObject db_scan_qty
                  in rerank (data st) ResQueue)))"

section \<open>The binarized-permutation VP-tree wrapper (perm\_bin\_vptree.cc)\<close>

text \<open>
  Modelled from the spec: \<open>Binarize\<close> is declared in permutation\_utils.h, which is not
  among the sources. The spec: take the permutation vector, threshold at \<open>\<tau>\<close>, bit \<open>i\<close> is
  1 iff the rank of pivot \<open>i\<close> is below \<open>\<tau>\<close>; pack into 32-bit words. This is the step for
  pivot \<open>i\<close>: bit \<open>i\<close> of the result is bit \<open>i mod 32\<close> of word \<open>i div 32\<close>.
\<close>
definition Binarize_step :: "nat list \<Rightarrow> nat \<Rightarrow> nat \<Rightarrow> 32 word list \<Rightarrow> 32 word list" where
  "Binarize_step perm thresh i bin_perm =
     (if perm ! i < thresh
      then bin_perm[i div 32 := (bin_perm ! (i div 32)) OR push_bit (i mod 32) 1]
      else bin_perm)"

text \<open>
  Modelled from the spec: \<open>Binarize\<close> itself (permutation\_utils.h, not among the sources):
  as many zeroed words as hold one bit per pivot, then the step for each pivot in turn.
\<close>
definition Binarize :: "nat list \<Rightarrow> nat \<Rightarrow> 32 word list" where
  "Binarize perm thresh =
     fold (Binarize_step perm thresh) [0..<length perm]
          (replicate ((length perm + 31) div 32) 0)"

text \<open>The number of 1-bits of a word, and of a packed vector.\<close>
definition popcount :: "32 word \<Rightarrow> nat" where
  "popcount w = length (filter (bit w) [0..<32])"

definition popcount_vec :: "32 word list \<Rightarrow> nat" where
  "popcount_vec ws = sum_list (map popcount ws)"

text \<open>A permutation vector over \<open>m\<close> pivots holds each rank \<open>0 .. m - 1\<close> once.\<close>
definition is_permutation :: "nat list \<Rightarrow> nat \<Rightarrow> bool" where
  "is_permutation perm m = (length perm = m \<and> (\<forall>r \<in> set [0..<m]. r \<in> set perm))"

record ('o, 'ix) PermBinVPTree =
  pb_data :: "'o list"
  bin_threshold :: nat
  bin_perm_word_qty :: nat
  db_scan_qty :: nat
  pivots :: "'o list"
  BinPermData :: "32 word list Object option list"
  pb_VPTreeIndex :: 'ix

text \<open>
  The loop of the constructor that fills \<open>BinPermData\<close>; \<open>getPerm\<close> is \<open>GetPermutation\<close>
  for the chosen pivots. A failed \<open>CHECK\<close> ends the run.
\<close>
fun BinPermData_loop ::
  "('o \<Rightarrow> nat list) \<Rightarrow> nat \<Rightarrow> nat \<Rightarrow> 'o list \<Rightarrow> nat list
     \<Rightarrow> 32 word list Object option list \<Rightarrow> error + 32 word list Object option list" where
  "BinPermData_loop getPerm thr word_qty dat [] bpd = Inr bpd"
| "BinPermData_loop getPerm thr word_qty dat (i # rest) bpd =
     (let TmpPerm = getPerm (dat ! i);
          binPivot = Binarize TmpPerm thr
      in if length binPivot \<noteq> word_qty then
           Inl (LOG_LIB_FATAL ''Check failed: binPivot.size() == bin_perm_word_qty_'')
         else BinPermData_loop getPerm thr word_qty dat rest
                (bpd[i := Some (CreateObjFromVect i (-1) binPivot)]))"

text \<open>
  The constructor, given the values of \<open>dbScanFrac\<close>, \<open>numPivot\<close> and \<open>binThreshold\<close> (after
  their defaults). \<open>DbScanFrac\<close> is a \<open>double\<close>: the size of the dataset is converted to
  \<open>double\<close>, the product is a \<open>double\<close> product, and the cast truncates it. The fatal
  message starts with the method name, a macro of perm\_bin\_vptree.h (not among the
  sources), left out here. \<open>getPivots\<close> is \<open>GetPermutationPivot\<close>, \<open>getPerm\<close> is \<open>GetPermutation\<close>
  and \<open>mkVPTree\<close> builds the VP-tree over the binarized permutations.
\<close>
definition PermBinVPTree_ctor ::
  "('o list \<Rightarrow> nat \<Rightarrow> 'o list) \<Rightarrow> ('o list \<Rightarrow> 'o \<Rightarrow> nat list)
     \<Rightarrow> (32 word list Object option list \<Rightarrow> 'ix) \<Rightarrow> 'o list \<Rightarrow> real \<Rightarrow> nat \<Rightarrow> nat
     \<Rightarrow> error + ('o, 'ix) PermBinVPTree" where
  "PermBinVPTree_ctor getPivots getPerm mkVPTree dat DbScanFrac NumPivot binThreshold =
     (let word_qty = ((NumPivot + 31) mod 2 ^ 64) div 32
      in if DbScanFrac < 0 \<or> DbScanFrac > 1 then
           Inl (LOG_LIB_FATAL ''requires that dbScanFrac is in the range [0,1]'')
         else
           (case static_cast_size_t (times_double DbScanFrac (double_of_size_t (length dat))) of
              None \<Rightarrow> Inl undefined_behaviour
            | Some q \<Rightarrow>
                (let scan_qty = max 1 q;
                     pvts = getPivots dat NumPivot
                 in case BinPermData_loop (getPerm pvts) binThreshold word_qty dat
                           [0..<length dat] (replicate (length dat) None) of
                      Inl e \<Rightarrow> Inl e
                    | Inr bpd \<Rightarrow>
                        Inr \<lparr>pb_data = dat, bin_threshold = binThreshold,
                             bin_perm_word_qty = word_qty, db_scan_qty = scan_qty,
                             pivots = pvts, BinPermData = bpd,
                             pb_VPTreeIndex = mkVPTree bpd\<rparr>)))"

text \<open>\<open>PermBinVPTree::Search(KNNQuery)\<close>.\<close>
definition PermBin_Search_KNN ::
  "('o list \<Rightarrow> 'o \<Rightarrow> nat list) \<Rightarrow> ('ix \<Rightarrow> 32 word list Object \<Rightarrow> nat \<Rightarrow> 32 word list Object list)
     \<Rightarrow> ('o, 'ix) PermBinVPTree \<Rightarrow> 'o \<Rightarrow> error + 'o list" where
  "PermBin_Search_KNN getPerm vpsearch st queryObj =
     (let perm_q = getPerm (pivots st) queryObj;
          binPivot = Binarize perm_q (bin_threshold st)
      in if length binPivot \<noteq> bin_perm_word_qty st then
           Inl (LOG_LIB_FATAL ''Check failed: binPivot.size() == bin_perm_word_qty_'')
         else
           (let QueryObject = CreateObjFromVect 0 (-1) binPivot;
                ResQueue = vpsearch (pb_VPTreeIndex st) QueryObject (db_scan_qty st)
            in rerank (pb_data st) ResQueue))"

section \<open>The auto-tuner (tune\_vptree.cc)\<close>

text \<open>
  What one call of \<open>GetOptimalAlphas\<close> (tune.h, not among the sources) hands back through
  its reference parameters.
\<close>
record goa_result =
  recall_loc :: real
  time_best_loc :: real
  impr_best_loc :: real
  alpha_left_loc :: real
  alpha_right_loc :: real

text \<open>
  The local variables of \<open>RunExper\<close> that hold the best configuration so far, and two
  ghost fields: the arguments \<open>(alpha_left, expLeft, alpha_right, expRight)\<close> of every
  call of \<open>GetOptimalAlphas\<close> made so far, and the number of random values drawn.
\<close>
record tune_state =
  recall :: real
  time_best :: real
  impr_best :: real
  tune_alpha_left :: real
  tune_alpha_right :: real
  tune_exp_left :: "32 word"
  tune_exp_right :: "32 word"
  calls :: "(real \<times> 32 word \<times> real \<times> 32 word) list"
  draws :: nat

definition init_state :: tune_state where
  "init_state = \<lparr>recall = 0, time_best = 0, impr_best = -1, tune_alpha_left = 0,
                 tune_alpha_right = 0, tune_exp_left = 0, tune_exp_right = 0,
                 calls = [], draws = 0\<rparr>"

text \<open>
  The body of the two nested loops. \<open>G n\<close> is the \<open>n\<close>-th call of \<open>GetOptimalAlphas\<close> and
  \<open>R n\<close> the \<open>n\<close>-th value of \<open>exp(normGen(engine))\<close>.
\<close>
definition restart_body ::
  "(nat \<Rightarrow> real \<Rightarrow> 32 word \<Rightarrow> real \<Rightarrow> 32 word \<Rightarrow> goa_result) \<Rightarrow> (nat \<Rightarrow> real)
     \<Rightarrow> 32 word \<Rightarrow> 32 word \<Rightarrow> tune_state \<Rightarrow> tune_state" where
  "restart_body G R ce k s =
     (let expLeft = ce; expRight = ce;
          alpha_left_start = (if k > 0 then R (draws s) else 1);
          alpha_right_start = (if k > 0 then R (draws s + 1) else 1);
          r = G (length (calls s)) alpha_left_start expLeft alpha_right_start expRight;
          s1 = s\<lparr>calls := calls s @ [(alpha_left_start, expLeft, alpha_right_start, expRight)],
                 draws := (if k > 0 then draws s + 2 else draws s)\<rparr>
      in if impr_best_loc r > impr_best s1 then
           s1\<lparr>recall := recall_loc r, time_best := time_best_loc r,
              impr_best := impr_best_loc r,
              tune_alpha_left := alpha_left_loc r, tune_alpha_right := alpha_right_loc r,
              tune_exp_left := expLeft, tune_exp_right := expRight\<rparr>
         else s1)"

text \<open>The inner loop \<open>for (unsigned k = 0; k < 1 + AddRestartQty; ++k)\<close>, from \<open>k\<close> on.\<close>
function restart_loop ::
  "(nat \<Rightarrow> real \<Rightarrow> 32 word \<Rightarrow> real \<Rightarrow> 32 word \<Rightarrow> goa_result) \<Rightarrow> (nat \<Rightarrow> real)
     \<Rightarrow> 32 word \<Rightarrow> 32 word \<Rightarrow> 32 word \<Rightarrow> tune_state \<Rightarrow> tune_state" where
  "restart_loop G R AddRestartQty ce k s =
     (if k < 1 + AddRestartQty
      then restart_loop G R AddRestartQty ce (k + 1) (restart_body G R ce k s)
      else s)"
  by pat_completeness auto
termination
proof (relation "measure (\<lambda>(G, R, AddRestartQty, ce, k, s). unat (1 + AddRestartQty) - unat k)")
  show "wf (measure (\<lambda>(G, R, AddRestartQty, ce, k, s). unat (1 + AddRestartQty) - unat k))"
    by simp
next
  fix G :: "nat \<Rightarrow> real \<Rightarrow> 32 word \<Rightarrow> real \<Rightarrow> 32 word \<Rightarrow> goa_result"
    and R :: "nat \<Rightarrow> real" and AddRestartQty ce k :: "32 word" and s :: tune_state
  assume lt: "k < 1 + AddRestartQty"
  then have "unat k < unat (1 + AddRestartQty)"
    by (simp add: word_less_nat_alt)
  moreover have "unat (k + 1) = unat k + 1"
  proof -
    have "k + 1 \<noteq> 0"
    proof
      assume "k + 1 = 0"
      then have "k = -1" by (simp add: eq_neg_iff_add_eq_0)
      with lt show False by simp
    qed
    then show ?thesis using unatSuc [of k] by (simp add: add.commute)
  qed
  ultimately show "((G, R, AddRestartQty, ce, k + 1, restart_body G R ce k s),
                    (G, R, AddRestartQty, ce, k, s))
                   \<in> measure (\<lambda>(G, R, AddRestartQty, ce, k, s). unat (1 + AddRestartQty) - unat k)"
    by simp
qed

declare restart_loop.simps [simp del]

text \<open>
  The outer loop \<open>for (unsigned ce = MinExp; ce <= MaxExp; ++ce)\<close>, from \<open>ce\<close> on. The
  counter wraps around, so the loop need not end: \<open>None\<close> is a run that never leaves it.
\<close>
partial_function (option) exp_loop ::
  "(nat \<Rightarrow> real \<Rightarrow> 32 word \<Rightarrow> real \<Rightarrow> 32 word \<Rightarrow> goa_result) \<Rightarrow> (nat \<Rightarrow> real)
     \<Rightarrow> 32 word \<Rightarrow> 32 word \<Rightarrow> 32 word \<Rightarrow> tune_state \<Rightarrow> tune_state option" where
  "exp_loop G R AddRestartQty MaxExp ce s =
     (if ce \<le> MaxExp
      then exp_loop G R AddRestartQty MaxExp (ce + 1) (restart_loop G R AddRestartQty ce 0 s)
      else Some s)"

text \<open>
  The checks at the head of the \<open>try\<close> block and the search. An exception thrown in the
  block is caught and logged as fatal. \<open>searchQty\<close> is \<open>rangeAll.size() + knnAll.size()\<close>.
  The checks before the block (the range argument, the method name, the metric),
  creating the space and reading the dataset are outside the model.
\<close>
definition RunExper_search ::
  "(nat \<Rightarrow> real \<Rightarrow> 32 word \<Rightarrow> real \<Rightarrow> 32 word \<Rightarrow> goa_result) \<Rightarrow> (nat \<Rightarrow> real)
     \<Rightarrow> 32 word \<Rightarrow> 32 word \<Rightarrow> 32 word \<Rightarrow> nat \<Rightarrow> (error + tune_state) option" where
  "RunExper_search G R AddRestartQty MinExp MaxExp searchQty =
     (if MaxExp = 0 then
        Some (Inl (LOG_LIB_FATAL (''Exception: '' @ ''minExp'' @ '' can't be zero!'')))
      else if MaxExp < MinExp then
        Some (Inl (LOG_LIB_FATAL (''Exception: '' @ ''maxExp'' @ '' can't be < '' @ ''minExp'')))
      else if searchQty \<noteq> 1 then
        Some (Inl (LOG_LIB_FATAL ''You need to specify exactly one range or one knn search!''))
      else
        (case exp_loop G R AddRestartQty MaxExp MinExp init_state of
           None \<Rightarrow> None
         | Some s \<Rightarrow> Some (Inr s)))"

text \<open>
  The string \<open>bestParams\<close>; \<open>showf\<close> and \<open>showu\<close> print a \<open>float\<close> and an \<open>unsigned\<close> as the
  stream does.
\<close>
definition bestParams :: "(real \<Rightarrow> string) \<Rightarrow> (32 word \<Rightarrow> string) \<Rightarrow> tune_state \<Rightarrow> string" where
  "bestParams showf showu s =
     ''alphaLeft'' @ ''='' @ showf (tune_alpha_left s) @ '','' @
     ''alphaRight'' @ ''='' @ showf (tune_alpha_right s) @ '','' @
     ''expLeft'' @ ''='' @ showu (tune_exp_left s) @ '','' @
     ''expRight'' @ ''='' @ showu (tune_exp_right s)"

text \<open>
  The end of \<open>RunExper\<close>, after the loops: the recall check, then the result file. A run
  that returns yields what it wrote: nothing, or the name of the result file and its
  content. \<open>file_opens\<close> tells whether the result file can be opened for writing.
\<close>
definition RunExper_report ::
  "(real \<Rightarrow> string) \<Rightarrow> (32 word \<Rightarrow> string) \<Rightarrow> real \<Rightarrow> string \<Rightarrow> bool \<Rightarrow> tune_state
     \<Rightarrow> error + (string \<times> string) option" where
  "RunExper_report showf showu desiredRecall ResFile file_opens s =
     (if recall s < desiredRecall then
        Inl (LOG_LIB_FATAL ''Failed to get the desired recall!'')
      else if ResFile \<noteq> [] then
        (if \<not> file_opens then
           Inl (LOG_LIB_FATAL (''Can't open file: '' @ [CHR 0x27] @ ResFile @ [CHR 0x27] @ '' for writing''))
         else Inr (Some (ResFile, bestParams showf showu s @ [CHR 0x0A])))
      else Inr None)"

definition RunExper ::
  "(nat \<Rightarrow> real \<Rightarrow> 32 word \<Rightarrow> real \<Rightarrow> 32 word \<Rightarrow> goa_result) \<Rightarrow> (nat \<Rightarrow> real)
     \<Rightarrow> (real \<Rightarrow> string) \<Rightarrow> (32 word \<Rightarrow> string)
     \<Rightarrow> 32 word \<Rightarrow> 32 word \<Rightarrow> 32 word \<Rightarrow> nat \<Rightarrow> real \<Rightarrow> string \<Rightarrow> bool
     \<Rightarrow> (error + (string \<times> string) option) option" where
  "RunExper G R showf showu AddRestartQty MinExp MaxExp searchQty desiredRecall ResFile file_opens =
     (case RunExper_search G R AddRestartQty MinExp MaxExp searchQty of
        None \<Rightarrow> None
      | Some (Inl e) \<Rightarrow> Some (Inl e)
      | Some (Inr s) \<Rightarrow> Some (RunExper_report showf showu desiredRecall ResFile file_opens s))"

text \<open>
  The exponent pair \<open>(expLeft, expRight)\<close> of a recorded call of \<open>GetOptimalAlphas\<close>, and
  the pairs the search ran \<open>GetOptimalAlphas\<close> for, in order (none when the search ended
  with an error or never ended).
\<close>
definition call_exps :: "real \<times> 32 word \<times> real \<times> 32 word \<Rightarrow> 32 word \<times> 32 word" where
  "call_exps c = (fst (snd c), snd (snd (snd c)))"

definition searched_pairs :: "(error + tune_state) option \<Rightarrow> (32 word \<times> 32 word) list" where
  "searched_pairs r = (case r of Some (Inr s) \<Rightarrow> map call_exps (calls s) | _ \<Rightarrow> [])"

section \<open>Example configurations\<close>

text \<open>Small concrete wrappers and parameters on which the theorems below are run.\<close>

definition example_state :: "nat \<Rightarrow> real \<Rightarrow> (nat, nat, unit) ProjectionVPTree" where
  "example_state amp fr = \<lparr>data = [10, 11, 12, 13], knn_amp = amp, db_scan_frac = fr,
             projData = [], VPTreeIndex = Some ()\<rparr>"

definition example_pmgr :: AnyParamManager where
  "example_pmgr = \<lparr>dbScanFrac = None, knnAmp = Some 2, otherParams = []\<rparr>"

definition example_proj :: "(nat, nat, unit) ProjectionVPTree" where
  "example_proj = \<lparr>data = [10, 11, 12, 13], knn_amp = 2, db_scan_frac = 0,
      projData = map (\<lambda>i. Some \<lparr>obj_id = i, obj_label = -1, obj_data = 110 + i\<rparr>) [0, 1, 2, 3],
      VPTreeIndex = Some ()\<rparr>"

definition example_permbin :: "(nat, unit) PermBinVPTree" where
  "example_permbin = \<lparr>pb_data = [10, 11, 12, 13], bin_threshold = 1, bin_perm_word_qty = 1,
      db_scan_qty = 2, pivots = [10, 11],
      BinPermData = map (\<lambda>i. Some \<lparr>obj_id = i, obj_label = -1, obj_data = [2]\<rparr>) [0, 1, 2, 3],
      pb_VPTreeIndex = ()\<rparr>"

text \<open>
  A stand-in for \<open>GetOptimalAlphas\<close> whose best recall is always 1/2, a random source
  that always yields 1, and a printer.
\<close>
definition example_G :: "nat \<Rightarrow> real \<Rightarrow> 32 word \<Rightarrow> real \<Rightarrow> 32 word \<Rightarrow> goa_result" where
  "example_G n al el ar er = \<lparr>recall_loc = 1 / 2, time_best_loc = 1, impr_best_loc = 3,
                               alpha_left_loc = 2 * al, alpha_right_loc = 4 * ar\<rparr>"

definition example_R :: "nat \<Rightarrow> real" where
  "example_R n = 1"

definition example_show :: "'a \<Rightarrow> string" where
  "example_show x = ''?''"

chapter \<open>Properties\<close>

section \<open>Floating-point rounding\<close>

lemma floor_log2_eq:
  assumes "2 powi k \<le> \<bar>x\<bar>" and "\<bar>x\<bar> < 2 powi (k + 1)"
  shows "\<lfloor>log 2 \<bar>x\<bar>\<rfloor> = k"
proof -
  have p: "\<And>n :: int. (2 :: real) powr real_of_int n = 2 powi n"
    by (rule powr_real_of_int') simp_all
  have "(0 :: real) < 2 powi k" by simp
  with assms(1) have pos: "0 < \<bar>x\<bar>" by linarith
  from assms have "2 powr real_of_int k \<le> \<bar>x\<bar> \<and> \<bar>x\<bar> < 2 powr real_of_int (k + 1)"
    by (simp only: p)
  then have "2 powr real_of_int k \<le> \<bar>x\<bar> \<and> \<bar>x\<bar> < 2 powr (real_of_int k + 1)" by simp
  with floor_log_eq_powr_iff [OF pos, of 2 k] show ?thesis by simp
qed

lemma round_to_at:
  assumes "2 powi k \<le> \<bar>x\<bar>" and "\<bar>x\<bar> < 2 powi (k + 1)"
  shows "round_to F x = of_int (round_half_even (x / 2 powi (max k (emin F) - int (precision F) + 1)))
                          * 2 powi (max k (emin F) - int (precision F) + 1)"
proof -
  have "(0 :: real) < 2 powi k" by simp
  with assms(1) have "0 < \<bar>x\<bar>" by linarith
  then have "x \<noteq> 0" by simp
  then show ?thesis by (simp add: round_to_def ulp_at_def floor_log2_eq [OF assms])
qed

lemma round_to_0: "round_to F 0 = 0"
  by (simp add: round_to_def)

lemma round_half_even_nonneg: "0 \<le> q \<Longrightarrow> 0 \<le> round_half_even q"
  by (auto simp: round_half_even_def Let_def)

lemma round_to_nonneg: "0 \<le> x \<Longrightarrow> 0 \<le> round_to F x"
proof -
  assume x: "0 \<le> x"
  have u: "0 < ulp_at F x" by (simp add: ulp_at_def)
  with x have "0 \<le> x / ulp_at F x" by simp
  then have "0 \<le> round_half_even (x / ulp_at F x)" by (rule round_half_even_nonneg)
  with u show ?thesis by (simp add: round_to_def)
qed

lemma round_dist_0: "round_dist T 0 = 0"
  by (cases T) (simp_all add: round_dist_def round_to_0)

text \<open>Values the examples below round: each is a value of its format.\<close>

lemma binary32_values:
  "round_to binary32 (1 / 8) = 1 / 8" "round_to binary32 (1 / 2) = 1 / 2"
  "round_to binary32 1 = 1" "round_to binary32 (3 / 2) = 3 / 2"
  "round_to binary32 2 = 2" "round_to binary32 3 = 3" "round_to binary32 4 = 4"
  using round_to_at [of "-3" "1 / 8" binary32] round_to_at [of "-1" "1 / 2" binary32]
    round_to_at [of 0 1 binary32] round_to_at [of 0 "3 / 2" binary32]
    round_to_at [of 1 2 binary32] round_to_at [of 1 3 binary32] round_to_at [of 2 4 binary32]
  by (simp_all add: binary32_def round_half_even_def Let_def power_int_minus_divide)

lemma binary64_values:
  "round_to binary64 1 = 1" "round_to binary64 2 = 2" "round_to binary64 4 = 4"
  using round_to_at [of 0 1 binary64] round_to_at [of 1 2 binary64] round_to_at [of 2 4 binary64]
  by (simp_all add: binary64_def round_half_even_def Let_def power_int_minus_divide)


section \<open>The pruner\<close>

lemma Classify_unfold:
  "Classify T p dq Rmax M =
     (if dq \<le> M \<and> Rmax < times_double (alpha_left p) (EfficientPow (round_dist T (M - dq)) (exp_left p))
      then kVisitLeft
      else if M \<le> dq \<and> Rmax < times_double (alpha_right p) (EfficientPow (round_dist T (dq - M)) (exp_right p))
      then kVisitRight
      else kVisitBoth)"
  by (simp add: Classify_def Classify_left_def Classify_right_def Let_def)



text \<open>
  C5. The classification is monotone in the pruning radius: a Both answer at radius
  \<open>Rmax1\<close> stays a Both answer at every larger radius \<open>Rmax2\<close>.
\<close>
theorem Classify_mono_Rmax:
  assumes "Rmax1 \<le> Rmax2"
    and "Classify T p dq Rmax1 M = kVisitBoth"
  shows "Classify T p dq Rmax2 M = kVisitBoth"
proof -
  let ?L = "times_double (alpha_left p) (EfficientPow (round_dist T (M - dq)) (exp_left p))"
  let ?R = "times_double (alpha_right p) (EfficientPow (round_dist T (dq - M)) (exp_right p))"
  from assms(2) have l: "\<not> (dq \<le> M \<and> Rmax1 < ?L)" and r: "\<not> (M \<le> dq \<and> Rmax1 < ?R)"
    by (auto simp: Classify_unfold split: if_splits)
  from l assms(1) have l2: "\<not> (dq \<le> M \<and> Rmax2 < ?L)" by auto
  from r assms(1) have r2: "\<not> (M \<le> dq \<and> Rmax2 < ?R)" by auto
  from l2 r2 show ?thesis by (simp add: Classify_unfold)
qed

text \<open>
  C5 at a concrete input: the default pruner over \<open>float\<close> distances, \<open>dq = 1\<close>, \<open>M = 2\<close>,
  radii 1 and 3.
\<close>
theorem Classify_mono_Rmax_witness:
  "(1::real) \<le> 3 \<and> Classify dist_float default_pruner 1 1 2 = kVisitBoth
     \<and> Classify dist_float default_pruner 1 3 2 = kVisitBoth"
proof -
  have h1: "(1::real) \<le> 3" by simp
  have h2: "Classify dist_float default_pruner 1 1 2 = kVisitBoth"
    by (simp add: Classify_unfold EfficientPow_def times_double_def round_dist_def
          binary32_values binary64_values default_pruner_def)
  from Classify_mono_Rmax [OF h1 h2] h1 h2 show ?thesis by simp
qed

text \<open>
  C6. For every pruner parameterization (the data model has the exponents in \<open>\<nat>\<^sup>+\<close>:
  \<open>eL \<ge> 1\<close> and \<open>eR \<ge> 1\<close>), whatever the distance type, at the median with radius 0 the
  pruner answers Both: the difference is 0, its power is 0, the bound is 0, and the
  strict test \<open>0 < 0\<close> fails on either side.
\<close>
theorem Classify_zero_radius_at_median:
  assumes "1 \<le> exp_left p" and "1 \<le> exp_right p"
  shows "Classify T p M 0 M = kVisitBoth"
proof -
  from assms have l: "(0::real) ^ exp_left p = 0" and r: "(0::real) ^ exp_right p = 0"
    by (simp_all add: power_0_left)
  show ?thesis
    by (simp add: Classify_unfold EfficientPow_def times_double_def round_dist_0 round_to_0 l r)
qed

text \<open>C6 at the default pruner and \<open>dq = M = 7\<close>, for \<open>float\<close> and for \<open>int\<close> distances.\<close>
theorem Classify_zero_radius_at_median_witness:
  "1 \<le> exp_left default_pruner \<and> 1 \<le> exp_right default_pruner
     \<and> Classify dist_float default_pruner 7 0 7 = kVisitBoth
     \<and> Classify dist_int default_pruner 7 0 7 = kVisitBoth"
proof -
  have h1: "1 \<le> exp_left default_pruner" by (simp add: default_pruner_def)
  have h2: "1 \<le> exp_right default_pruner" by (simp add: default_pruner_def)
  from Classify_zero_radius_at_median [OF h1 h2, of dist_float 7]
    Classify_zero_radius_at_median [OF h1 h2, of dist_int 7] h1 h2
  show ?thesis by simp
qed

text \<open>
  C10. A one-sided answer keeps the subtree on the query's side of the median: the
  pruner never answers Left-only when \<open>dq > M\<close> and never answers Right-only when
  \<open>dq < M\<close>.
\<close>
theorem Classify_side:
  "(M < dq \<longrightarrow> Classify T p dq Rmax M \<noteq> kVisitLeft) \<and>
   (dq < M \<longrightarrow> Classify T p dq Rmax M \<noteq> kVisitRight)"
  by (simp add: Classify_unfold)

text \<open>C10 at the default pruner over \<open>float\<close> distances, on either side of the median 1.\<close>
theorem Classify_side_witness:
  "(1::real) < 2 \<and> Classify dist_float default_pruner 2 0 1 \<noteq> kVisitLeft \<and>
   (0::real) < 1 \<and> Classify dist_float default_pruner 0 0 1 \<noteq> kVisitRight"
  using Classify_side [of 1 2 dist_float default_pruner 0]
    Classify_side [of 1 0 dist_float default_pruner 0]
  by simp

section \<open>The surrogate wrappers\<close>

lemma static_cast_size_t_floor:
  "0 \<le> x \<Longrightarrow> x < 2 ^ 64 \<Longrightarrow> static_cast_size_t x = Some (nat \<lfloor>x\<rfloor>)"
  by (simp add: static_cast_size_t_def)

lemma Search_KNN_Inr_qty:
  "Search_KNN compProj vpsearch st q K = Inr res \<Longrightarrow> \<exists>c. computeDbScan st K = Some c \<and> 1 \<le> c"
  by (auto simp: Search_KNN_def split: option.splits if_splits)

lemma PermBinVPTree_ctor_qty:
  assumes "PermBinVPTree_ctor getPivots getPerm mkVPTree dat DbScanFrac NumPivot binThreshold = Inr pb"
  shows "db_scan_qty pb
           = max 1 (nat \<lfloor>times_double DbScanFrac (double_of_size_t (length dat))\<rfloor>)"
  using assms
  by (auto simp: PermBinVPTree_ctor_def Let_def static_cast_size_t_def
           split: if_splits option.splits sum.splits)

lemma example_proj_ctor:
  "ProjectionVPTree_ctor (\<lambda>ix p. Inr ix) (\<lambda>p. Inr ()) (Inr (\<lambda>x. 100 + x)) (\<lambda>pd. ())
       [10, 11, 12, 13] example_pmgr
     = Inr example_proj"
  by (simp add: ProjectionVPTree_ctor_def SetQueryTimeParamsInternal_def example_pmgr_def
        example_proj_def hasParam_dbScanFrac_def hasParam_knnAmp_def fill_projData_def
        ProjectOneVect_def CreateObjFromVect_def upt_rec Let_def)

lemma example_permbin_ctor:
  "PermBinVPTree_ctor (\<lambda>d n. take n d) (\<lambda>p x. [1, 0]) (\<lambda>b. ()) [10, 11, 12, 13] (1 / 2) 2 1
     = Inr example_permbin"
  by (simp add: PermBinVPTree_ctor_def static_cast_size_t_def Binarize_def Binarize_step_def
        CreateObjFromVect_def LOG_LIB_FATAL_def upt_rec Let_def example_permbin_def
        times_double_def double_of_size_t_def binary64_values)

lemma times_float_nonneg: "0 \<le> a \<Longrightarrow> 0 \<le> times_float a (float_of_size_t n)"
  by (simp add: times_float_def float_of_size_t_def round_to_nonneg)

lemma binary32_seven_tenths:
  "round_to binary32 (7 / 10) = 11744051 / 2 ^ 24"
  "round_to binary32 10 = 10"
  "round_to binary32 (11744051 / 2 ^ 24 * 10) = 7"
  using round_to_at [of "-1" "7 / 10" binary32] round_to_at [of 3 10 binary32]
    round_to_at [of 2 "11744051 / 2 ^ 24 * 10" binary32]
  by (simp_all add: binary32_def round_half_even_def Let_def power_int_minus_divide)

text \<open>
  The rounding of the product matters: with \<open>dbScanFrac = 0.7f\<close> and ten objects the
  \<open>float\<close> product is 7 and so is the count, where the exact product lies below 7.
\<close>
lemma computeDbScan_rounds_product:
  "computeDbScan \<lparr>data = replicate 10 (0 :: nat), knn_amp = 0, db_scan_frac = round_to binary32 (7 / 10),
                   projData = ([] :: unit Object option list), VPTreeIndex = (None :: unit option)\<rparr> 1
     = Some 7
   \<and> nat \<lfloor>round_to binary32 (7 / 10) * real (10 :: nat)\<rfloor> = 6"
proof -
  have "times_float (round_to binary32 (7 / 10)) (float_of_size_t 10) = 7"
    unfolding times_float_def float_of_size_t_def
    by (simp only: binary32_seven_tenths of_nat_numeral)
  then have "computeDbScan \<lparr>data = replicate 10 (0 :: nat), knn_amp = 0, db_scan_frac = round_to binary32 (7 / 10),
                   projData = ([] :: unit Object option list), VPTreeIndex = (None :: unit option)\<rparr> 1
     = Some 7"
    by (simp add: computeDbScan_def static_cast_size_t_def)
  moreover have "nat \<lfloor>round_to binary32 (7 / 10) * real (10 :: nat)\<rfloor> = 6"
    unfolding binary32_seven_tenths by simp
  ultimately show ?thesis by simp
qed

text \<open>
  C4, as stated, fails twice. With \<open>knnAmp = 0\<close>, \<open>dbScanFrac = 1/2\<close> and three objects
  the \<open>float\<close> product is \<open>3/2\<close> and the candidate count is its truncation 1, not
  \<open>\<lceil>3/2\<rceil> = 2\<close>; with \<open>knnAmp = 3\<close>, \<open>k = 2\<close> and four objects the count is capped at 4, not
  \<open>3 \<sqdot> 2 = 6\<close>.
\<close>
theorem candidate_count_counterexample:
  "computeDbScan \<lparr>data = [0, 1, 2 :: nat], knn_amp = 0, db_scan_frac = 1 / 2,
                   projData = ([] :: unit Object option list), VPTreeIndex = (None :: unit option)\<rparr> 1
     = Some 1
   \<and> nat \<lceil>(1 / 2 :: real) * real (length [0, 1, 2 :: nat])\<rceil> = 2
   \<and> computeDbScan \<lparr>data = [0, 1, 2, 3 :: nat], knn_amp = 3, db_scan_frac = 0,
                   projData = ([] :: unit Object option list), VPTreeIndex = (None :: unit option)\<rparr> 2
     = Some 4
   \<and> (3 :: nat) * 2 = 6"
  by (simp add: computeDbScan_def static_cast_size_t_def times_float_def float_of_size_t_def
        binary32_values)

text \<open>
  C4, amended. For a k-NN query of size \<open>K\<close> on a projection wrapper over \<open>N\<close> objects the
  candidate count is \<open>min (knnAmp \<sqdot> K) N\<close> when \<open>knnAmp > 0\<close> (the product below \<open>2^64\<close>);
  otherwise (\<open>dbScanFrac \<ge> 0\<close>) it is the \<open>float\<close> product of \<open>dbScanFrac\<close> and \<open>N\<close>,
  truncated: the product as rounded to \<open>float\<close>, not the exact one. A count of 0 makes the
  query raise an error, so a query that answers had a count of at least 1. The
  binarized-permutation wrapper has no \<open>knnAmp\<close>; its count is the larger of 1 and the
  truncated \<open>double\<close> product of \<open>dbScanFrac\<close> and \<open>N\<close>, which is at least 1.
\<close>
theorem candidate_count:
  "(knn_amp st \<noteq> 0 \<and> K * knn_amp st < 2 ^ 64 \<longrightarrow>
      computeDbScan st K = Some (min (K * knn_amp st) (length (data st))))
   \<and> (knn_amp st = 0 \<and> 0 \<le> db_scan_frac st
        \<and> round_to binary32 (db_scan_frac st * round_to binary32 (real (length (data st)))) < 2 ^ 64 \<longrightarrow>
      computeDbScan st K
        = Some (nat \<lfloor>round_to binary32 (db_scan_frac st * round_to binary32 (real (length (data st))))\<rfloor>))
   \<and> (computeDbScan st K = Some 0 \<longrightarrow>
      Search_KNN compProj vpsearch st q K =
        Inl (runtime_error ''You need to specify knnAmp > 0 or a sufficiently large dbScanFrac!''))
   \<and> (\<forall>res. Search_KNN compProj vpsearch st q K = Inr res \<longrightarrow>
        (\<exists>c. computeDbScan st K = Some c \<and> 1 \<le> c))
   \<and> (\<forall>pb. PermBinVPTree_ctor getPivots getPerm mkVPTree dat DbScanFrac NumPivot binThreshold = Inr pb \<longrightarrow>
        db_scan_qty pb
          = max 1 (nat \<lfloor>round_to binary64 (DbScanFrac * round_to binary64 (real (length dat)))\<rfloor>)
        \<and> 1 \<le> db_scan_qty pb)"
proof (intro conjI impI allI)
  assume "knn_amp st \<noteq> 0 \<and> K * knn_amp st < 2 ^ 64"
  then show "computeDbScan st K = Some (min (K * knn_amp st) (length (data st)))"
    by (simp add: computeDbScan_def)
next
  let ?P = "round_to binary32 (db_scan_frac st * round_to binary32 (real (length (data st))))"
  assume a: "knn_amp st = 0 \<and> 0 \<le> db_scan_frac st \<and> ?P < 2 ^ 64"
  have P: "times_float (db_scan_frac st) (float_of_size_t (length (data st))) = ?P"
    by (simp add: times_float_def float_of_size_t_def)
  from a have "0 \<le> ?P" using times_float_nonneg [of "db_scan_frac st" "length (data st)"]
    by (simp only: P)
  with a have "static_cast_size_t ?P = Some (nat \<lfloor>?P\<rfloor>)"
    by (intro static_cast_size_t_floor) simp_all
  with a show "computeDbScan st K = Some (nat \<lfloor>?P\<rfloor>)"
    by (simp add: computeDbScan_def P)
next
  assume "computeDbScan st K = Some 0"
  then show "Search_KNN compProj vpsearch st q K =
        Inl (runtime_error ''You need to specify knnAmp > 0 or a sufficiently large dbScanFrac!'')"
    by (simp add: Search_KNN_def)
next
  fix res assume "Search_KNN compProj vpsearch st q K = Inr res"
  then show "\<exists>c. computeDbScan st K = Some c \<and> 1 \<le> c" by (rule Search_KNN_Inr_qty)
next
  fix pb assume "PermBinVPTree_ctor getPivots getPerm mkVPTree dat DbScanFrac NumPivot binThreshold = Inr pb"
  then show "db_scan_qty pb
          = max 1 (nat \<lfloor>round_to binary64 (DbScanFrac * round_to binary64 (real (length dat)))\<rfloor>)"
    using PermBinVPTree_ctor_qty [of getPivots getPerm mkVPTree dat DbScanFrac NumPivot binThreshold pb]
    by (simp add: times_double_def double_of_size_t_def)
next
  fix pb assume "PermBinVPTree_ctor getPivots getPerm mkVPTree dat DbScanFrac NumPivot binThreshold = Inr pb"
  then have "db_scan_qty pb
          = max 1 (nat \<lfloor>times_double DbScanFrac (double_of_size_t (length dat))\<rfloor>)"
    by (rule PermBinVPTree_ctor_qty)
  then show "1 \<le> db_scan_qty pb" by simp
qed

text \<open>C4, amended, on wrappers over four objects.\<close>
theorem candidate_count_witness:
  "computeDbScan (example_state 3 0) 1 = Some 3
   \<and> computeDbScan (example_state 0 (1 / 2)) 1 = Some 2
   \<and> Search_KNN (\<lambda>x. x) (\<lambda>ix q c. []) (example_state 0 (1 / 8)) 0 1 =
        Inl (runtime_error ''You need to specify knnAmp > 0 or a sufficiently large dbScanFrac!'')
   \<and> Search_KNN (\<lambda>x. x) (\<lambda>ix q c. []) (example_state 0 (1 / 2)) 0 1 = Inr []
   \<and> (\<exists>c. computeDbScan (example_state 0 (1 / 2)) 1 = Some c \<and> 1 \<le> c)
   \<and> db_scan_qty example_permbin = 2 \<and> 1 \<le> db_scan_qty example_permbin"
proof -
  have p2: "round_to binary32 (1 / 2 * round_to binary32 (real (length (data (example_state 0 (1 / 2)))))) = 2"
    by (simp add: example_state_def binary32_values)
  have h1: "knn_amp (example_state 3 0) \<noteq> 0 \<and> 1 * knn_amp (example_state 3 0) < 2 ^ 64"
    by (simp add: example_state_def)
  have h2: "knn_amp (example_state 0 (1 / 2)) = 0 \<and> 0 \<le> db_scan_frac (example_state 0 (1 / 2))
      \<and> round_to binary32 (db_scan_frac (example_state 0 (1 / 2))
            * round_to binary32 (real (length (data (example_state 0 (1 / 2)))))) < 2 ^ 64"
    using p2 by (simp add: example_state_def)
  have h3: "computeDbScan (example_state 0 (1 / 8)) 1 = Some 0"
    by (simp add: example_state_def computeDbScan_def static_cast_size_t_def times_float_def
          float_of_size_t_def binary32_values)
  have h4: "Search_KNN (\<lambda>x. x) (\<lambda>ix q c. []) (example_state 0 (1 / 2)) 0 1 = Inr []"
    by (simp add: example_state_def Search_KNN_def computeDbScan_def static_cast_size_t_def
          times_float_def float_of_size_t_def binary32_values)
  have c1: "computeDbScan (example_state 3 0) 1 = Some 3"
    using candidate_count [of "example_state 3 0" 1, THEN conjunct1, THEN mp, OF h1]
    by (simp add: example_state_def)
  have c2: "computeDbScan (example_state 0 (1 / 2)) 1 = Some 2"
    using candidate_count [of "example_state 0 (1 / 2)" 1, THEN conjunct2, THEN conjunct1, THEN mp, OF h2]
      p2
    by (simp add: example_state_def)
  have c3: "Search_KNN (\<lambda>x. x) (\<lambda>ix q c. []) (example_state 0 (1 / 8)) 0 1 =
        Inl (runtime_error ''You need to specify knnAmp > 0 or a sufficiently large dbScanFrac!'')"
    using candidate_count [of "example_state 0 (1 / 8)" 1 "\<lambda>x. x" "\<lambda>ix q c. []" 0,
        THEN conjunct2, THEN conjunct2, THEN conjunct1, THEN mp, OF h3] .
  have c4: "\<exists>c. computeDbScan (example_state 0 (1 / 2)) 1 = Some c \<and> 1 \<le> c"
    using candidate_count [of "example_state 0 (1 / 2)" 1 "\<lambda>x. x" "\<lambda>ix q c. []" 0,
        THEN conjunct2, THEN conjunct2, THEN conjunct2, THEN conjunct1, THEN spec, THEN mp, OF h4] .
  have c5: "db_scan_qty example_permbin = 2 \<and> 1 \<le> db_scan_qty example_permbin"
    using candidate_count [THEN conjunct2, THEN conjunct2, THEN conjunct2, THEN conjunct2,
        THEN spec, THEN mp, OF example_permbin_ctor]
    by (simp add: binary64_values)
  from c1 c2 c3 h4 c4 c5 show ?thesis by simp
qed

text \<open>
  C7. Query-time parameters with both \<open>dbScanFrac\<close> and \<open>knnAmp\<close> present are refused with
  an error when they are set, in \<open>SetQueryTimeParamsInternal\<close> and so in the constructor,
  before any query runs; that error is the wrapper's own whenever the underlying VP-tree
  is not yet built or takes the parameters. With exactly one of the two present (and the
  VP-tree not yet built or taking the parameters) the parameters are accepted: the one
  given is stored and the other is set to 0.
\<close>
theorem SetQueryTimeParams_exclusive:
  "(hasParam_dbScanFrac pmgr \<and> hasParam_knnAmp pmgr \<longrightarrow>
      (\<exists>e. SetQueryTimeParamsInternal vset st pmgr = Inl e)
      \<and> ((VPTreeIndex st = None \<or> (\<exists>ix ix'. VPTreeIndex st = Some ix \<and> vset ix pmgr = Inr ix')) \<longrightarrow>
           SetQueryTimeParamsInternal vset st pmgr =
             Inl (runtime_error ''One shouldn't specify both parameters dbScanFrac and knnAmp''))
      \<and> (getRequired pmgr = Inr () \<longrightarrow>
           ProjectionVPTree_ctor vset getRequired setup mkVPTree dat pmgr =
             Inl (runtime_error ''One shouldn't specify both parameters dbScanFrac and knnAmp'')))
   \<and> (hasParam_dbScanFrac pmgr \<noteq> hasParam_knnAmp pmgr
      \<and> (VPTreeIndex st = None \<or> (\<exists>ix ix'. VPTreeIndex st = Some ix \<and> vset ix pmgr = Inr ix')) \<longrightarrow>
        (\<exists>st'. SetQueryTimeParamsInternal vset st pmgr = Inr st'
           \<and> knn_amp st' = (case knnAmp pmgr of None \<Rightarrow> 0 | Some v \<Rightarrow> v)
           \<and> db_scan_frac st' = (case dbScanFrac pmgr of None \<Rightarrow> 0 | Some v \<Rightarrow> v)))"
  by (auto simp: SetQueryTimeParamsInternal_def ProjectionVPTree_ctor_def Let_def
        hasParam_dbScanFrac_def hasParam_knnAmp_def
      split: option.splits sum.splits)

text \<open>C7 on a wrapper whose VP-tree takes every parameter.\<close>
theorem SetQueryTimeParams_exclusive_witness:
  "SetQueryTimeParamsInternal (\<lambda>ix p. Inr ix) (example_state 0 0)
       \<lparr>dbScanFrac = Some (1 / 10), knnAmp = Some 2, otherParams = []\<rparr>
     = Inl (runtime_error ''One shouldn't specify both parameters dbScanFrac and knnAmp'')
   \<and> (\<exists>st'. SetQueryTimeParamsInternal (\<lambda>ix p. Inr ix) (example_state 0 0)
               \<lparr>dbScanFrac = None, knnAmp = Some 2, otherParams = []\<rparr> = Inr st'
            \<and> knn_amp st' = 2 \<and> db_scan_frac st' = 0)"
proof -
  let ?both = "\<lparr>dbScanFrac = Some (1 / 10), knnAmp = Some 2, otherParams = []\<rparr>"
  let ?one = "\<lparr>dbScanFrac = None, knnAmp = Some 2, otherParams = []\<rparr>"
  let ?vset = "\<lambda>(ix :: unit) (p :: AnyParamManager). (Inr ix :: error + unit)"
  have acc: "\<And>p. VPTreeIndex (example_state 0 0) = None
      \<or> (\<exists>ix ix'. VPTreeIndex (example_state 0 0) = Some ix \<and> ?vset ix p = Inr ix')"
    by (simp add: example_state_def)
  have hb: "hasParam_dbScanFrac ?both \<and> hasParam_knnAmp ?both"
    by (simp add: hasParam_dbScanFrac_def hasParam_knnAmp_def)
  have ho: "hasParam_dbScanFrac ?one \<noteq> hasParam_knnAmp ?one
      \<and> (VPTreeIndex (example_state 0 0) = None
          \<or> (\<exists>ix ix'. VPTreeIndex (example_state 0 0) = Some ix \<and> ?vset ix ?one = Inr ix'))"
    using acc by (simp add: hasParam_dbScanFrac_def hasParam_knnAmp_def)
  have c1: "SetQueryTimeParamsInternal ?vset (example_state 0 0) ?both
     = Inl (runtime_error ''One shouldn't specify both parameters dbScanFrac and knnAmp'')"
    using SetQueryTimeParams_exclusive [of ?both ?vset "example_state 0 0", THEN conjunct1, THEN mp, OF hb,
        THEN conjunct2, THEN conjunct1, THEN mp, OF acc] .
  have c2: "\<exists>st'. SetQueryTimeParamsInternal ?vset (example_state 0 0) ?one = Inr st'
            \<and> knn_amp st' = 2 \<and> db_scan_frac st' = 0"
    using SetQueryTimeParams_exclusive [of ?one ?vset "example_state 0 0", THEN conjunct2, THEN mp, OF ho]
    by simp
  from c1 c2 show ?thesis by blast
qed

lemma fold_update_nth:
  "\<forall>i \<in> set idxs. i < length pd \<Longrightarrow>
     length (fold (\<lambda>i pd. pd[i := f i]) idxs pd) = length pd \<and>
     (\<forall>j < length pd. fold (\<lambda>i pd. pd[i := f i]) idxs pd ! j = (if j \<in> set idxs then f j else pd ! j))"
proof (induction idxs arbitrary: pd)
  case Nil
  then show ?case by simp
next
  case (Cons a idxs)
  from Cons.prems have "\<forall>k \<in> set idxs. k < length (pd[a := f a])" by simp
  from Cons.IH [OF this] Cons.prems show ?case
    by (auto simp: nth_list_update)
qed

lemma fill_projData_nth:
  "length (fill_projData compProj dat) = length dat \<and>
   (\<forall>i < length dat. fill_projData compProj dat ! i = Some (ProjectOneVect compProj i (dat ! i)))"
  using fold_update_nth [of "[0..<length dat]" "replicate (length dat) None"
      "\<lambda>i. Some (ProjectOneVect compProj i (dat ! i))"]
  by (simp add: fill_projData_def)

lemma BinPermData_loop_nth:
  "BinPermData_loop g thr wq dat idxs bpd = Inr bpd' \<Longrightarrow> \<forall>i \<in> set idxs. i < length bpd \<Longrightarrow>
     length bpd' = length bpd \<and>
     (\<forall>j < length bpd. bpd' ! j =
        (if j \<in> set idxs then Some (CreateObjFromVect j (-1) (Binarize (g (dat ! j)) thr))
         else bpd ! j))"
proof (induction idxs arbitrary: bpd)
  case Nil
  then show ?case by simp
next
  case (Cons a idxs)
  let ?bpd1 = "bpd[a := Some (CreateObjFromVect a (-1) (Binarize (g (dat ! a)) thr))]"
  from Cons.prems(1) have run: "BinPermData_loop g thr wq dat idxs ?bpd1 = Inr bpd'"
    by (simp add: Let_def split: if_splits)
  from Cons.prems(2) have "\<forall>k \<in> set idxs. k < length ?bpd1" by simp
  from Cons.IH [OF run this] Cons.prems(2) show ?case
    by (auto simp: nth_list_update)
qed

lemma rerank_map:
  "\<forall>x \<in> set Q. obj_id x < length dat \<Longrightarrow> rerank dat Q = Inr (map (\<lambda>x. dat ! obj_id x) Q)"
  by (induction Q) (simp_all add: Let_def)

lemma in_filled_vector:
  assumes len: "length pd = n"
    and nth: "\<forall>i < n. pd ! i = Some (mk i)"
    and mem: "Some x \<in> set pd"
    and ident: "\<forall>i. obj_id (mk i) = i"
  shows "obj_id x < n \<and> x = mk (obj_id x)"
proof -
  from mem obtain i where i: "i < length pd" "pd ! i = Some x"
    by (auto simp: in_set_conv_nth)
  with len nth have "x = mk i" by auto
  with ident i(1) len show ?thesis by auto
qed

lemma ProjectionVPTree_ctor_projData:
  assumes "ProjectionVPTree_ctor vset getRequired (Inr compProj) mkVPTree dat pmgr = Inr st"
  shows "data st = dat \<and> projData st = fill_projData compProj dat
         \<and> VPTreeIndex st = Some (mkVPTree (projData st))"
  using assms
  by (auto simp: ProjectionVPTree_ctor_def SetQueryTimeParamsInternal_def Let_def
        split: sum.splits if_splits option.splits)

lemma PermBinVPTree_ctor_BinPermData:
  assumes "PermBinVPTree_ctor getPivots getPerm mkVPTree dat DbScanFrac NumPivot thr = Inr pb"
  shows "pb_data pb = dat \<and> bin_threshold pb = thr \<and> pivots pb = getPivots dat NumPivot
     \<and> pb_VPTreeIndex pb = mkVPTree (BinPermData pb)
     \<and> BinPermData_loop (getPerm (pivots pb)) thr (bin_perm_word_qty pb) dat [0..<length dat]
          (replicate (length dat) None) = Inr (BinPermData pb)"
  using assms
  by (auto simp: PermBinVPTree_ctor_def Let_def split: sum.splits if_splits option.splits)

text \<open>
  C9. Each wrapper creates the surrogate of the object at index \<open>i\<close> of the dataset with
  identifier \<open>i\<close> and label \<open>-1\<close>. Hence, when the surrogate search returns objects of the
  surrogate dataset, the re-ranking loop hands \<open>CheckAndAddToResult\<close>, for each popped
  surrogate, the object \<open>data[id]\<close> whose projection that surrogate is.
\<close>
theorem surrogate_identity:
  "(ProjectionVPTree_ctor vset getRequired (Inr compProj) mkVPTree dat pmgr = Inr st \<longrightarrow>
      length (projData st) = length dat
      \<and> (\<forall>i < length dat. projData st ! i =
            Some \<lparr>obj_id = i, obj_label = -1, obj_data = compProj (dat ! i)\<rparr>)
      \<and> (\<forall>K c Q. computeDbScan st K = Some c \<and> c \<noteq> 0
            \<and> Q = vpsearch (mkVPTree (projData st)) (ProjectOneVect compProj 0 q) c
            \<and> (\<forall>x \<in> set Q. Some x \<in> set (projData st)) \<longrightarrow>
            Search_KNN compProj vpsearch st q K = Inr (map (\<lambda>x. dat ! obj_id x) Q)
            \<and> (\<forall>x \<in> set Q. obj_id x < length dat \<and> obj_label x = -1
                  \<and> obj_data x = compProj (dat ! obj_id x))))
   \<and> (PermBinVPTree_ctor getPivots getPerm mkBinVPTree bdat DbScanFrac NumPivot thr = Inr pb \<longrightarrow>
      length (BinPermData pb) = length bdat
      \<and> (\<forall>i < length bdat. BinPermData pb ! i =
            Some \<lparr>obj_id = i, obj_label = -1,
                  obj_data = Binarize (getPerm (pivots pb) (bdat ! i)) thr\<rparr>)
      \<and> (\<forall>binPivot Q. binPivot = Binarize (getPerm (pivots pb) bq) thr
            \<and> length binPivot = bin_perm_word_qty pb
            \<and> Q = binsearch (mkBinVPTree (BinPermData pb)) (CreateObjFromVect 0 (-1) binPivot)
                    (db_scan_qty pb)
            \<and> (\<forall>x \<in> set Q. Some x \<in> set (BinPermData pb)) \<longrightarrow>
            PermBin_Search_KNN getPerm binsearch pb bq = Inr (map (\<lambda>x. bdat ! obj_id x) Q)
            \<and> (\<forall>x \<in> set Q. obj_id x < length bdat \<and> obj_label x = -1
                  \<and> obj_data x = Binarize (getPerm (pivots pb) (bdat ! obj_id x)) thr)))"
proof (intro conjI impI)
  assume ctor: "ProjectionVPTree_ctor vset getRequired (Inr compProj) mkVPTree dat pmgr = Inr st"
  note c = ProjectionVPTree_ctor_projData [OF ctor]
  let ?mk = "\<lambda>i. ProjectOneVect compProj i (dat ! i)"
  from c fill_projData_nth [of compProj dat]
  have len: "length (projData st) = length dat"
    and nth: "\<forall>i < length dat. projData st ! i = Some (?mk i)"
    by simp_all
  show "length (projData st) = length dat" by (rule len)
  from nth show "\<forall>i < length dat. projData st ! i =
            Some \<lparr>obj_id = i, obj_label = -1, obj_data = compProj (dat ! i)\<rparr>"
    by (simp add: ProjectOneVect_def CreateObjFromVect_def)
  show "\<forall>K c Q. computeDbScan st K = Some c \<and> c \<noteq> 0
            \<and> Q = vpsearch (mkVPTree (projData st)) (ProjectOneVect compProj 0 q) c
            \<and> (\<forall>x \<in> set Q. Some x \<in> set (projData st)) \<longrightarrow>
            Search_KNN compProj vpsearch st q K = Inr (map (\<lambda>x. dat ! obj_id x) Q)
            \<and> (\<forall>x \<in> set Q. obj_id x < length dat \<and> obj_label x = -1
                  \<and> obj_data x = compProj (dat ! obj_id x))"
  proof (intro allI impI, elim conjE)
    fix K c Q
    assume qty: "computeDbScan st K = Some c" "c \<noteq> 0"
      and Q: "Q = vpsearch (mkVPTree (projData st)) (ProjectOneVect compProj 0 q) c"
      and mem: "\<forall>x \<in> set Q. Some x \<in> set (projData st)"
    have each: "\<forall>x \<in> set Q. obj_id x < length dat \<and> x = ?mk (obj_id x)"
    proof
      fix x assume "x \<in> set Q"
      with mem have "Some x \<in> set (projData st)" by simp
      from in_filled_vector [OF len nth this] show "obj_id x < length dat \<and> x = ?mk (obj_id x)"
        by (simp add: ProjectOneVect_def CreateObjFromVect_def)
    qed
    then have "rerank dat Q = Inr (map (\<lambda>x. dat ! obj_id x) Q)"
      by (simp add: rerank_map)
    with qty Q c have "Search_KNN compProj vpsearch st q K = Inr (map (\<lambda>x. dat ! obj_id x) Q)"
      by (simp add: Search_KNN_def Let_def)
    moreover have "\<forall>x \<in> set Q. obj_id x < length dat \<and> obj_label x = -1
                  \<and> obj_data x = compProj (dat ! obj_id x)"
    proof
      fix x assume "x \<in> set Q"
      with each have lt: "obj_id x < length dat" and eq: "x = ?mk (obj_id x)" by auto
      from eq have "obj_label x = obj_label (?mk (obj_id x))"
        and "obj_data x = obj_data (?mk (obj_id x))" by simp_all
      with lt show "obj_id x < length dat \<and> obj_label x = -1
                  \<and> obj_data x = compProj (dat ! obj_id x)"
        by (simp add: ProjectOneVect_def CreateObjFromVect_def)
    qed
    ultimately show "Search_KNN compProj vpsearch st q K = Inr (map (\<lambda>x. dat ! obj_id x) Q)
            \<and> (\<forall>x \<in> set Q. obj_id x < length dat \<and> obj_label x = -1
                  \<and> obj_data x = compProj (dat ! obj_id x))" by simp
  qed
next
  assume ctor: "PermBinVPTree_ctor getPivots getPerm mkBinVPTree bdat DbScanFrac NumPivot thr = Inr pb"
  note c = PermBinVPTree_ctor_BinPermData [OF ctor]
  let ?mk = "\<lambda>i. CreateObjFromVect i (-1) (Binarize (getPerm (pivots pb) (bdat ! i)) thr)"
  from c have run: "BinPermData_loop (getPerm (pivots pb)) thr (bin_perm_word_qty pb) bdat
      [0..<length bdat] (replicate (length bdat) None) = Inr (BinPermData pb)" by blast
  from BinPermData_loop_nth [OF run]
  have len: "length (BinPermData pb) = length bdat"
    and nth: "\<forall>i < length bdat. BinPermData pb ! i = Some (?mk i)"
    by simp_all
  show "length (BinPermData pb) = length bdat" by (rule len)
  from nth show "\<forall>i < length bdat. BinPermData pb ! i =
            Some \<lparr>obj_id = i, obj_label = -1,
                  obj_data = Binarize (getPerm (pivots pb) (bdat ! i)) thr\<rparr>"
    by (simp add: CreateObjFromVect_def)
  show "\<forall>binPivot Q. binPivot = Binarize (getPerm (pivots pb) bq) thr
            \<and> length binPivot = bin_perm_word_qty pb
            \<and> Q = binsearch (mkBinVPTree (BinPermData pb)) (CreateObjFromVect 0 (-1) binPivot)
                    (db_scan_qty pb)
            \<and> (\<forall>x \<in> set Q. Some x \<in> set (BinPermData pb)) \<longrightarrow>
            PermBin_Search_KNN getPerm binsearch pb bq = Inr (map (\<lambda>x. bdat ! obj_id x) Q)
            \<and> (\<forall>x \<in> set Q. obj_id x < length bdat \<and> obj_label x = -1
                  \<and> obj_data x = Binarize (getPerm (pivots pb) (bdat ! obj_id x)) thr)"
  proof (intro allI impI, elim conjE)
    fix binPivot Q
    assume bp: "binPivot = Binarize (getPerm (pivots pb) bq) thr"
      and chk: "length binPivot = bin_perm_word_qty pb"
      and Q: "Q = binsearch (mkBinVPTree (BinPermData pb)) (CreateObjFromVect 0 (-1) binPivot)
                    (db_scan_qty pb)"
      and mem: "\<forall>x \<in> set Q. Some x \<in> set (BinPermData pb)"
    have each: "\<forall>x \<in> set Q. obj_id x < length bdat \<and> x = ?mk (obj_id x)"
    proof
      fix x assume "x \<in> set Q"
      with mem have "Some x \<in> set (BinPermData pb)" by simp
      from in_filled_vector [OF len nth this] show "obj_id x < length bdat \<and> x = ?mk (obj_id x)"
        by (simp add: CreateObjFromVect_def)
    qed
    then have "rerank bdat Q = Inr (map (\<lambda>x. bdat ! obj_id x) Q)"
      by (simp add: rerank_map)
    with bp chk Q c have "PermBin_Search_KNN getPerm binsearch pb bq = Inr (map (\<lambda>x. bdat ! obj_id x) Q)"
      by (simp add: PermBin_Search_KNN_def Let_def)
    moreover have "\<forall>x \<in> set Q. obj_id x < length bdat \<and> obj_label x = -1
                  \<and> obj_data x = Binarize (getPerm (pivots pb) (bdat ! obj_id x)) thr"
    proof
      fix x assume "x \<in> set Q"
      with each have lt: "obj_id x < length bdat" and eq: "x = ?mk (obj_id x)" by auto
      from eq have "obj_label x = obj_label (?mk (obj_id x))"
        and "obj_data x = obj_data (?mk (obj_id x))" by simp_all
      with lt show "obj_id x < length bdat \<and> obj_label x = -1
                  \<and> obj_data x = Binarize (getPerm (pivots pb) (bdat ! obj_id x)) thr"
        by (simp add: CreateObjFromVect_def)
    qed
    ultimately show "PermBin_Search_KNN getPerm binsearch pb bq = Inr (map (\<lambda>x. bdat ! obj_id x) Q)
            \<and> (\<forall>x \<in> set Q. obj_id x < length bdat \<and> obj_label x = -1
                  \<and> obj_data x = Binarize (getPerm (pivots pb) (bdat ! obj_id x)) thr)" by simp
  qed
qed

text \<open>C9 on the two example wrappers.\<close>
theorem surrogate_identity_witness:
  "Search_KNN (\<lambda>x. 100 + x)
      (\<lambda>ix q c. [\<lparr>obj_id = 2, obj_label = -1, obj_data = 112\<rparr>, \<lparr>obj_id = 0, obj_label = -1, obj_data = 110\<rparr>])
      example_proj 5 1 = Inr [12, 10]
   \<and> PermBin_Search_KNN (\<lambda>p x. [1, 0]) (\<lambda>ix q c. [\<lparr>obj_id = 3, obj_label = -1, obj_data = [2]\<rparr>])
      example_permbin 5 = Inr [13]"
proof -
  let ?vps = "\<lambda>(ix :: unit) (q :: nat Object) (c :: nat).
     [\<lparr>obj_id = 2, obj_label = -1, obj_data = 112 :: nat\<rparr>, \<lparr>obj_id = 0, obj_label = -1, obj_data = 110\<rparr>]"
  let ?bs = "\<lambda>(ix :: unit) (q :: 32 word list Object) (c :: nat).
     [\<lparr>obj_id = 3, obj_label = -1, obj_data = [2 :: 32 word]\<rparr>]"
  have h1: "computeDbScan example_proj 1 = Some 2 \<and> (2 :: nat) \<noteq> 0
      \<and> ?vps () (ProjectOneVect (\<lambda>x. 100 + x) 0 5) 2 = ?vps () (ProjectOneVect (\<lambda>x. 100 + x) 0 5) 2
      \<and> (\<forall>x \<in> set (?vps () (ProjectOneVect (\<lambda>x. 100 + x) 0 5) 2). Some x \<in> set (projData example_proj))"
    by (simp add: computeDbScan_def example_proj_def)
  have a: "Search_KNN (\<lambda>x. 100 + x) ?vps example_proj 5 1 = Inr [12, 10]"
    using surrogate_identity [where vpsearch = ?vps and q = "5 :: nat",
        THEN conjunct1, THEN mp, OF example_proj_ctor,
        THEN conjunct2, THEN conjunct2, THEN spec [where x = "1 :: nat"],
        THEN spec [where x = "2 :: nat"],
        THEN spec [where x = "?vps () (ProjectOneVect (\<lambda>x. 100 + x) 0 5) 2"], THEN mp, OF h1, THEN conjunct1]
    by simp
  have h2: "[2] = Binarize ((\<lambda>p x. [1, 0]) (pivots example_permbin) (5 :: nat)) 1
      \<and> length [2 :: 32 word] = bin_perm_word_qty example_permbin
      \<and> ?bs () (CreateObjFromVect 0 (-1) [2]) (db_scan_qty example_permbin)
          = ?bs () (CreateObjFromVect 0 (-1) [2]) (db_scan_qty example_permbin)
      \<and> (\<forall>x \<in> set (?bs () (CreateObjFromVect 0 (-1) [2]) (db_scan_qty example_permbin)).
            Some x \<in> set (BinPermData example_permbin))"
    by (simp add: example_permbin_def Binarize_def Binarize_step_def upt_rec)
  have b: "PermBin_Search_KNN (\<lambda>p x. [1, 0]) ?bs example_permbin 5 = Inr [13]"
    using surrogate_identity [where binsearch = ?bs and bq = "5 :: nat",
        THEN conjunct2, THEN mp, OF example_permbin_ctor,
        THEN conjunct2, THEN conjunct2, THEN spec [where x = "[2 :: 32 word]"],
        THEN spec [where x = "?bs () (CreateObjFromVect 0 (-1) [2]) (db_scan_qty example_permbin)"],
        THEN mp, OF h2, THEN conjunct1]
    by simp
  from a b show ?thesis by simp
qed

section \<open>The binary-permutation projection\<close>

lemma bit_set_one: "b < 32 \<Longrightarrow> bit (2 ^ k :: 32 word) b \<longleftrightarrow> b = k"
  by (auto simp: bit_simps)

lemma split_index: "b < 32 \<Longrightarrow> (32 * w + b = n) \<longleftrightarrow> (w = n div 32 \<and> b = n mod 32)" for b w n :: nat
  by auto

lemma Binarize_fold_bits:
  "n \<le> 32 * W \<Longrightarrow>
     length (fold (Binarize_step perm thr) [0..<n] (replicate W 0)) = W \<and>
     (\<forall>w < W. \<forall>b < 32.
        bit (fold (Binarize_step perm thr) [0..<n] (replicate W 0) ! w) b
          \<longleftrightarrow> (32 * w + b < n \<and> perm ! (32 * w + b) < thr))"
proof (induction n)
  case 0
  then show ?case by simp
next
  case (Suc n)
  let ?res = "fold (Binarize_step perm thr) [0..<n] (replicate W 0)"
  from Suc have len: "length ?res = W"
    and bits: "\<forall>w < W. \<forall>b < 32. bit (?res ! w) b \<longleftrightarrow> (32 * w + b < n \<and> perm ! (32 * w + b) < thr)"
    by simp_all
  from Suc.prems have nW: "n div 32 < W" by auto
  have step: "fold (Binarize_step perm thr) [0..<Suc n] (replicate W 0) = Binarize_step perm thr n ?res"
    by simp
  show ?case
  proof (cases "perm ! n < thr")
    case False
    then have "Binarize_step perm thr n ?res = ?res" by (simp add: Binarize_step_def)
    with step len bits False show ?thesis
      by (auto simp: less_Suc_eq)
  next
    case True
    then have upd: "Binarize_step perm thr n ?res
        = ?res[n div 32 := (?res ! (n div 32)) OR push_bit (n mod 32) 1]"
      by (simp add: Binarize_step_def)
    have "\<forall>w < W. \<forall>b < 32.
        bit ((?res[n div 32 := (?res ! (n div 32)) OR push_bit (n mod 32) 1]) ! w) b
          \<longleftrightarrow> (32 * w + b < Suc n \<and> perm ! (32 * w + b) < thr)"
    proof (intro allI impI)
      fix w b assume w: "w < W" and b: "b < (32::nat)"
      from bits w b have old: "bit (?res ! w) b \<longleftrightarrow> (32 * w + b < n \<and> perm ! (32 * w + b) < thr)"
        by simp
      show "bit ((?res[n div 32 := (?res ! (n div 32)) OR push_bit (n mod 32) 1]) ! w) b
          \<longleftrightarrow> (32 * w + b < Suc n \<and> perm ! (32 * w + b) < thr)"
      proof (cases "w = n div 32")
        case True
        with len nW have "bit ((?res[n div 32 := (?res ! (n div 32)) OR push_bit (n mod 32) 1]) ! w) b
            \<longleftrightarrow> bit (?res ! w) b \<or> b = n mod 32"
          by (simp add: bit_or_iff bit_set_one [OF b])
        also have "\<dots> \<longleftrightarrow> (32 * w + b < n \<and> perm ! (32 * w + b) < thr) \<or> 32 * w + b = n"
          using True b old by (simp add: split_index)
        also have "\<dots> \<longleftrightarrow> (32 * w + b < Suc n \<and> perm ! (32 * w + b) < thr)"
          using \<open>perm ! n < thr\<close> by (auto simp: less_Suc_eq)
        finally show ?thesis .
      next
        case False
        with b have "32 * w + b \<noteq> n" by (simp add: split_index)
        with False old show ?thesis by (auto simp: less_Suc_eq)
      qed
    qed
    with step upd len show ?thesis by simp
  qed
qed

lemma Binarize_eq_fold:
  "Binarize perm thr = fold (Binarize_step perm thr) [0..<length perm] (replicate ((length perm + 31) div 32) 0)"
  by (simp add: Binarize_def)

lemma sum_blocks:
  "(\<Sum>w\<leftarrow>[0..<W]. length (filter P [32 * w..<32 * w + 32])) = length (filter P [0..<32 * W])"
proof (induction W)
  case 0
  then show ?case by simp
next
  case (Suc W)
  have e: "32 * Suc W = 32 * W + 32" by simp
  have "[0..<32 * W + 32] = [0..<32 * W] @ [32 * W..<32 * W + 32]"
    using upt_add_eq_append [of 0 "32 * W" 32] by simp
  with Suc show ?case unfolding e by simp
qed

lemma popcount_block:
  assumes "\<forall>b < 32. bit x b \<longleftrightarrow> P (32 * w + b)"
  shows "popcount x = length (filter P [32 * w..<32 * w + 32])"
proof -
  have "filter (bit x) [0..<32] = filter (\<lambda>b. P (32 * w + b)) [0..<32]"
    using assms by (intro filter_cong) auto
  moreover have "[32 * w..<32 * w + 32] = map (\<lambda>b. 32 * w + b) [0..<32]"
    by (simp add: map_add_upt add.commute)
  ultimately show ?thesis
    by (simp add: popcount_def filter_map comp_def)
qed

lemma popcount_vec_blocks:
  assumes "length ws = W"
    and "\<forall>w < W. \<forall>b < 32. bit (ws ! w) b \<longleftrightarrow> P (32 * w + b)"
  shows "popcount_vec ws = length (filter P [0..<32 * W])"
proof -
  have "map popcount ws = map (\<lambda>w. popcount (ws ! w)) [0..<W]"
    using assms(1) by (simp add: list_eq_iff_nth_eq)
  also have "\<dots> = map (\<lambda>w. length (filter P [32 * w..<32 * w + 32])) [0..<W]"
    using assms(2) by (intro map_cong) (auto intro: popcount_block)
  finally show ?thesis by (simp add: popcount_vec_def sum_blocks)
qed

lemma length_filter_upt_card:
  "length (filter P [0..<N]) = card {i. i < N \<and> P i}"
proof -
  have "{i. i < length [0..<N] \<and> P ([0..<N] ! i)} = {i. i < N \<and> P i}" by auto
  then show ?thesis by (simp add: length_filter_conv_card)
qed

lemma is_permutation_distinct:
  assumes "is_permutation perm m"
  shows "distinct perm \<and> set perm = {0..<m} \<and> length perm = m"
proof -
  from assms have len: "length perm = m" and sub: "{0..<m} \<subseteq> set perm"
    by (auto simp: is_permutation_def)
  from sub have "card {0..<m} \<le> card (set perm)" by (intro card_mono) simp_all
  with len have ge: "length perm \<le> card (set perm)" by simp
  with card_length [of perm] have eq: "card (set perm) = length perm" by simp
  then have d: "distinct perm" by (rule card_distinct)
  from sub eq len have "{0..<m} = set perm" by (intro card_subset_eq) simp_all
  with d len show ?thesis by simp
qed

lemma count_below_threshold:
  assumes "is_permutation perm m"
  shows "card {i. i < m \<and> perm ! i < thr} = min thr m"
proof -
  from is_permutation_distinct [OF assms]
  have d: "distinct perm" and s: "set perm = {0..<m}" and len: "length perm = m" by simp_all
  have inj: "inj_on (\<lambda>i. perm ! i) {i. i < m \<and> perm ! i < thr}"
    using d len by (auto simp: inj_on_def nth_eq_iff_index_eq)
  have "(\<lambda>i. perm ! i) ` {i. i < m \<and> perm ! i < thr} = {v. v \<in> set perm \<and> v < thr}"
    using len by (auto simp: in_set_conv_nth)
  also have "\<dots> = {0..<min thr m}" using s by auto
  finally have "card ((\<lambda>i. perm ! i) ` {i. i < m \<and> perm ! i < thr}) = min thr m" by simp
  with card_image [OF inj] show ?thesis by simp
qed

lemma ceiling_div_32: "nat \<lceil>real m / 32\<rceil> = (m + 31) div 32"
proof -
  have "\<lceil>real m / 32\<rceil> = int ((m + 31) div 32)"
  proof (rule ceiling_unique)
    have a: "m + 31 = 32 * ((m + 31) div 32) + (m + 31) mod 32" by simp
    have b: "(m + 31) mod 32 < 32" by simp
    from a b have "32 * ((m + 31) div 32) < m + 32" by linarith
    then have "real (32 * ((m + 31) div 32)) < real (m + 32)" by (simp only: of_nat_less_iff)
    then show "of_int (int ((m + 31) div 32)) - 1 < real m / 32" by simp
    from a b have "m \<le> 32 * ((m + 31) div 32)" by linarith
    then have "real m \<le> real (32 * ((m + 31) div 32))" by (simp only: of_nat_le_iff)
    then show "real m / 32 \<le> of_int (int ((m + 31) div 32))" by simp
  qed
  then show ?thesis by simp
qed

text \<open>
  C8. For a permutation vector over \<open>m\<close> pivots and a threshold \<open>\<tau>\<close>, the binary-permutation
  projection packs its result into exactly \<open>\<lceil>m / 32\<rceil>\<close> 32-bit words, and the packed
  result has \<open>min \<tau> m\<close> bits set. The number of words is the \<open>(NumPivot + 31) / 32\<close> the
  wrapper checks it against.
\<close>
theorem Binarize_packing:
  assumes "is_permutation perm m"
  shows "length (Binarize perm thr) = nat \<lceil>real m / 32\<rceil>
       \<and> popcount_vec (Binarize perm thr) = min thr m
       \<and> (m + 31 < 2 ^ 64 \<longrightarrow> length (Binarize perm thr) = ((m + 31) mod 2 ^ 64) div 32)"
proof -
  let ?W = "(m + 31) div 32"
  let ?P = "\<lambda>i. i < m \<and> perm ! i < thr"
  from assms have len: "length perm = m" by (simp add: is_permutation_def)
  have mW: "m \<le> 32 * ?W" by (simp add: Suc_leI less_eq_div_iff_mult_less_eq mult.commute) 
  from Binarize_fold_bits [OF mW, of perm thr] len
  have l: "length (Binarize perm thr) = ?W"
    and bits: "\<forall>w < ?W. \<forall>b < 32. bit (Binarize perm thr ! w) b \<longleftrightarrow> ?P (32 * w + b)"
    by (simp_all add: Binarize_eq_fold)
  from popcount_vec_blocks [OF l, of ?P] bits
  have "popcount_vec (Binarize perm thr) = length (filter ?P [0..<32 * ?W])" by simp
  also have "\<dots> = card {i. i < 32 * ?W \<and> ?P i}" by (rule length_filter_upt_card)
  also have "{i. i < 32 * ?W \<and> ?P i} = {i. i < m \<and> perm ! i < thr}" using mW by auto
  also have "card \<dots> = min thr m" by (rule count_below_threshold [OF assms])
  finally have pc: "popcount_vec (Binarize perm thr) = min thr m" .
  from l pc show ?thesis by (simp add: ceiling_div_32)
qed

text \<open>C8 on the permutation \<open>[2, 0, 1, 3]\<close> with threshold 2: bits 1 and 2 are set.\<close>
theorem Binarize_packing_witness:
  "is_permutation [2, 0, 1, 3] 4 \<and> Binarize [2, 0, 1, 3] 2 = [6]
   \<and> length (Binarize [2, 0, 1, 3] 2) = 1 \<and> popcount_vec (Binarize [2, 0, 1, 3] 2) = 2"
proof -
  have h: "is_permutation [2, 0, 1, 3] 4"
    by (simp add: is_permutation_def upt_rec)
  have v: "Binarize [2, 0, 1, 3] 2 = [6]"
    by (simp add: Binarize_def Binarize_step_def upt_rec)
  from Binarize_packing [OF h, of 2] h v show ?thesis by simp
qed

section \<open>The auto-tuner\<close>

lemma unat_inc: "(k :: 32 word) < b \<Longrightarrow> unat (k + 1) = Suc (unat k)"
proof -
  assume lt: "k < b"
  have "k + 1 \<noteq> 0"
  proof
    assume "k + 1 = 0"
    then have "k = -1" by (simp add: eq_neg_iff_add_eq_0)
    with lt show False by simp
  qed
  then show ?thesis using unatSuc [of k] by (simp add: add.commute)
qed

lemma restart_body_calls:
  "map call_exps (calls (restart_body G R ce k s)) = map call_exps (calls s) @ [(ce, ce)]"
  by (simp add: restart_body_def Let_def call_exps_def)

lemma restart_loop_calls:
  "map call_exps (calls (restart_loop G R A ce k s))
     = map call_exps (calls s) @ replicate (unat (1 + A) - unat k) (ce, ce)"
proof (induction G R A ce k s rule: restart_loop.induct)
  case (1 G R A ce k s)
  show ?case
  proof (cases "k < 1 + A")
    case True
    then have lt: "unat k < unat (1 + A)" by (simp add: word_less_nat_alt)
    from True have inc: "unat (k + 1) = Suc (unat k)" by (rule unat_inc)
    from lt have "replicate (unat (1 + A) - unat k) (ce, ce)
        = (ce, ce) # replicate (unat (1 + A) - Suc (unat k)) (ce, ce)"
      by (metis Suc_diff_Suc replicate_Suc)
    with "1.IH" [OF True] True inc show ?thesis
      by (subst restart_loop.simps) (simp add: restart_body_calls)
  next
    case False
    then have "unat (1 + A) - unat k = 0" by (simp add: word_less_nat_alt)
    with False show ?thesis by (subst restart_loop.simps) simp
  qed
qed

lemma restart_loop_inv:
  "(\<forall>c k t. I t \<longrightarrow> I (restart_body G R c k t)) \<Longrightarrow> I s \<Longrightarrow> I (restart_loop G R A ce k s)"
proof (induction G R A ce k s rule: restart_loop.induct)
  case (1 G R A ce k s)
  show ?case
  proof (cases "k < 1 + A")
    case True
    from "1.prems" have "I (restart_body G R ce k s)" by simp
    from "1.IH" [OF True "1.prems"(1) this] True show ?thesis
      by (subst restart_loop.simps) simp
  next
    case False
    with "1.prems"(2) show ?thesis by (subst restart_loop.simps) simp
  qed
qed

lemma exp_loop_terminates:
  assumes fin: "MaxExp \<noteq> -1"
    and inv: "\<forall>c k t. I t \<longrightarrow> I (restart_body G R c k t)"
  shows "\<exists>s'. exp_loop G R A MaxExp ce s = Some s'
           \<and> map call_exps (calls s') = map call_exps (calls s)
                @ concat (map (\<lambda>e. replicate (unat (1 + A)) (e, e))
                            (map of_nat [unat ce..<Suc (unat MaxExp)]))
           \<and> (I s \<longrightarrow> I s')"
proof (induction "Suc (unat MaxExp) - unat ce" arbitrary: ce s)
  case 0
  then have "\<not> ce \<le> MaxExp" by (simp add: word_le_nat_alt)
  moreover from 0 have "[unat ce..<Suc (unat MaxExp)] = []" by simp
  ultimately show ?case by (subst exp_loop.simps) (simp del: upt_Suc)
next
  case (Suc d)
  then have le: "ce \<le> MaxExp" by (simp add: word_le_nat_alt)
  with fin have "ce < -1" by (metis word_order.not_eq_extremum order_le_less_trans)
  then have inc: "unat (ce + 1) = Suc (unat ce)" by (rule unat_inc)
  let ?s1 = "restart_loop G R A ce 0 s"
  from Suc(2) inc have "d = Suc (unat MaxExp) - unat (ce + 1)" by simp
  from Suc(1) [OF this, of ?s1] obtain s' where
    run: "exp_loop G R A MaxExp (ce + 1) ?s1 = Some s'"
    and cs: "map call_exps (calls s') = map call_exps (calls ?s1)
                @ concat (map (\<lambda>e. replicate (unat (1 + A)) (e, e))
                            (map of_nat [unat (ce + 1)..<Suc (unat MaxExp)]))"
    and i: "I ?s1 \<longrightarrow> I s'"
    by blast
  from le have "unat ce < Suc (unat MaxExp)" by (simp add: word_le_nat_alt)
  then have l: "[unat ce..<Suc (unat MaxExp)] = unat ce # [Suc (unat ce)..<Suc (unat MaxExp)]"
    by (rule upt_conv_Cons)
  have "exp_loop G R A MaxExp ce s = Some s'"
    using le run by (subst exp_loop.simps) simp
  moreover have "map call_exps (calls s') = map call_exps (calls s)
                @ concat (map (\<lambda>e. replicate (unat (1 + A)) (e, e))
                            (map of_nat [unat ce..<Suc (unat MaxExp)]))"
    using cs inc by (simp add: l restart_loop_calls del: upt_Suc)
  moreover have "I s \<longrightarrow> I s'"
    using i restart_loop_inv [OF inv] by blast
  ultimately show ?case by blast
qed

lemma example_search:
  "RunExper_search example_G example_R 0 1 2 1 =
     Some (Inr \<lparr>recall = 1 / 2, time_best = 1, impr_best = 3, tune_alpha_left = 2,
                tune_alpha_right = 4, tune_exp_left = 1, tune_exp_right = 1,
                calls = [(1, 1, 1, 1), (1, 2, 1, 2)], draws = 0\<rparr>)"
  by (simp add: RunExper_search_def exp_loop.simps restart_loop.simps restart_body_def
        init_state_def example_G_def example_R_def Let_def)

lemma word_range_set:
  "set (map of_nat [unat a..<Suc (unat b)]) = {e :: 32 word. a \<le> e \<and> e \<le> b}"
proof (intro set_eqI iffI)
  fix e :: "32 word"
  assume "e \<in> set (map of_nat [unat a..<Suc (unat b)])"
  then obtain n where n: "unat a \<le> n" "n \<le> unat b" and e: "e = of_nat n" by auto
  from n(2) have "unat (of_nat n :: 32 word) = n" by (rule le_unat_uoi)
  with n e show "e \<in> {e. a \<le> e \<and> e \<le> b}" by (simp add: word_le_nat_alt)
next
  fix e :: "32 word"
  assume "e \<in> {e. a \<le> e \<and> e \<le> b}"
  then have "unat a \<le> unat e" "unat e \<le> unat b" by (simp_all add: word_le_nat_alt)
  then have "unat e \<in> set [unat a..<Suc (unat b)]" by (simp del: upt_Suc)
  then have "of_nat (unat e) \<in> (of_nat :: nat \<Rightarrow> 32 word) ` set [unat a..<Suc (unat b)]"
    by (rule imageI)
  then show "e \<in> set (map of_nat [unat a..<Suc (unat b)])" by (simp del: upt_Suc)
qed

lemma restart_body_recall:
  assumes "\<forall>n al el ar er. recall_loc (G n al el ar er) < desiredRecall"
  shows "\<forall>c k t. recall t < desiredRecall \<longrightarrow> recall (restart_body G R c k t) < desiredRecall"
  using assms by (simp add: restart_body_def Let_def)

text \<open>
  C2, as stated, fails: over the exponent range 1 to 2 the tuner runs its grid search for
  \<open>(1, 1)\<close> and \<open>(2, 2)\<close> only; the pair \<open>(1, 2)\<close> of the lattice is never searched.
\<close>
theorem RunExper_lattice_counterexample:
  "searched_pairs (RunExper_search example_G example_R 0 1 2 1) = [(1, 1), (2, 2)]
   \<and> (1, 2) \<notin> set (searched_pairs (RunExper_search example_G example_R 0 1 2 1))"
  unfolding example_search by (simp add: searched_pairs_def call_exps_def)

text \<open>
  C2, amended. For every exponent range with \<open>1 \<le> minExp \<le> maxExp\<close> (\<open>maxExp\<close> below the
  largest \<open>unsigned\<close>, so that the counter does not wrap around) the search ends and the
  tuner runs its grid search exactly for the equal-exponent pairs \<open>(e, e)\<close> with
  \<open>minExp \<le> e \<le> maxExp\<close>, in ascending order, each \<open>1 + AddRestartQty\<close> times (modulo
  \<open>2^32\<close>): the diagonal of the range, and no pair with \<open>eL \<noteq> eR\<close>.
\<close>
theorem RunExper_searches_diagonal:
  assumes "1 \<le> MinExp" and "MinExp \<le> MaxExp" and "MaxExp \<noteq> -1"
  shows "\<exists>s. RunExper_search G R AddRestartQty MinExp MaxExp 1 = Some (Inr s)
     \<and> searched_pairs (Some (Inr s))
         = concat (map (\<lambda>e. replicate (unat (1 + AddRestartQty)) (e, e))
                       (map of_nat [unat MinExp..<Suc (unat MaxExp)]))
     \<and> (\<forall>p \<in> set (searched_pairs (Some (Inr s))).
           fst p = snd p \<and> MinExp \<le> fst p \<and> fst p \<le> MaxExp)
     \<and> (AddRestartQty \<noteq> -1 \<longrightarrow>
          (\<forall>e. MinExp \<le> e \<and> e \<le> MaxExp \<longrightarrow> (e, e) \<in> set (searched_pairs (Some (Inr s)))))"
proof -
  from exp_loop_terminates [OF assms(3), of "\<lambda>s. True" G R AddRestartQty MinExp init_state]
  obtain s where run: "exp_loop G R AddRestartQty MaxExp MinExp init_state = Some s"
    and cs: "map call_exps (calls s) = concat (map (\<lambda>e. replicate (unat (1 + AddRestartQty)) (e, e))
                       (map of_nat [unat MinExp..<Suc (unat MaxExp)]))"
    by (auto simp: init_state_def simp del: upt_Suc)
  from assms(1,2) have nz: "MaxExp \<noteq> 0" by (auto simp: word_le_nat_alt unat_eq_0)
  from assms(2) have nlt: "\<not> MaxExp < MinExp" by simp
  from nz nlt run have r: "RunExper_search G R AddRestartQty MinExp MaxExp 1 = Some (Inr s)"
    by (simp add: RunExper_search_def)
  have sp: "searched_pairs (Some (Inr s)) = concat (map (\<lambda>e. replicate (unat (1 + AddRestartQty)) (e, e))
                       (map of_nat [unat MinExp..<Suc (unat MaxExp)]))"
    using cs by (simp add: searched_pairs_def)
  have diag: "\<forall>p \<in> set (searched_pairs (Some (Inr s))).
           fst p = snd p \<and> MinExp \<le> fst p \<and> fst p \<le> MaxExp"
  proof
    fix p assume "p \<in> set (searched_pairs (Some (Inr s)))"
    then obtain e where "e \<in> set (map of_nat [unat MinExp..<Suc (unat MaxExp)])"
      and "p \<in> set (replicate (unat (1 + AddRestartQty)) (e, e))"
      unfolding sp by (auto simp del: upt_Suc)
    then show "fst p = snd p \<and> MinExp \<le> fst p \<and> fst p \<le> MaxExp"
      unfolding word_range_set by auto
  qed
  have all: "AddRestartQty \<noteq> -1 \<longrightarrow>
          (\<forall>e. MinExp \<le> e \<and> e \<le> MaxExp \<longrightarrow> (e, e) \<in> set (searched_pairs (Some (Inr s))))"
  proof (intro impI allI)
    fix e assume a: "AddRestartQty \<noteq> -1" and e: "MinExp \<le> e \<and> e \<le> MaxExp"
    from a have "1 + AddRestartQty \<noteq> 0" by (simp add: add_eq_0_iff)
    then have "0 < unat (1 + AddRestartQty)" by (simp add: unat_gt_0)
    then have "(e, e) \<in> set (replicate (unat (1 + AddRestartQty)) (e, e))" by simp
    moreover from e have "e \<in> set (map of_nat [unat MinExp..<Suc (unat MaxExp)])"
      unfolding word_range_set by simp
    ultimately show "(e, e) \<in> set (searched_pairs (Some (Inr s)))"
      unfolding sp by (auto simp del: upt_Suc)
  qed
  from r sp diag all show ?thesis by blast
qed

text \<open>C2, amended, over the range 1 to 3 with one additional restart.\<close>
theorem RunExper_searches_diagonal_witness:
  "(1 :: 32 word) \<le> 1 \<and> (1 :: 32 word) \<le> 3 \<and> (3 :: 32 word) \<noteq> -1
   \<and> searched_pairs (RunExper_search example_G example_R 1 1 3 1)
       = [(1, 1), (1, 1), (2, 2), (2, 2), (3, 3), (3, 3)]"
proof -
  have h1: "(1 :: 32 word) \<le> 1" and h2: "(1 :: 32 word) \<le> 3" and h3: "(3 :: 32 word) \<noteq> -1"
    by simp_all
  from RunExper_searches_diagonal [OF h1 h2 h3, of example_G example_R 1]
  obtain s where r: "RunExper_search example_G example_R 1 1 3 1 = Some (Inr s)"
    and sp: "searched_pairs (Some (Inr s))
         = concat (map (\<lambda>e. replicate (unat (1 + (1 :: 32 word))) (e, e))
                       (map of_nat [unat (1 :: 32 word)..<Suc (unat (3 :: 32 word))]))"
    by blast
  have l: "[unat (1 :: 32 word)..<Suc (unat (3 :: 32 word))] = [1, 2, 3]"
    by (simp add: upt_rec)
  have u: "unat (1 + (1 :: 32 word)) = 2" by simp
  have two: "\<And>x :: 32 word \<times> 32 word. replicate 2 x = [x, x]"
    by (simp add: numeral_2_eq_2)
  from sp have "searched_pairs (Some (Inr s)) = [(1, 1), (1, 1), (2, 2), (2, 2), (3, 3), (3, 3)]"
    unfolding l u by (simp add: two)
  with r h1 h2 h3 show ?thesis by simp
qed

text \<open>
  C3, as stated, fails: when every configuration stays below the target recall 9/10, the
  run ends in the fatal log message alone. The best configuration found (with
  \<open>alphaLeft = 2\<close>, \<open>alphaRight = 4\<close>) is not part of it, the result file is not written,
  and nothing returns to the caller.
\<close>
theorem RunExper_failure_counterexample:
  "RunExper example_G example_R example_show example_show 0 1 2 1 (9 / 10) ''best.txt'' True
     = Some (Inl (fatal ''Failed to get the desired recall!''))"
  unfolding RunExper_def example_search
  by (simp add: RunExper_report_def LOG_LIB_FATAL_def)

text \<open>
  C3, amended. If no call of the grid search reaches the target recall (a positive
  target, an exponent range the search accepts and leaves), the auto-tuner logs the fatal
  error "Failed to get the desired recall!" and the run ends there: the best observed
  configuration is not reported, the result file is not written, and the caller gets
  nothing to decide on.
\<close>
theorem RunExper_recall_failure:
  assumes "MaxExp \<noteq> 0" and "MinExp \<le> MaxExp" and "MaxExp \<noteq> -1"
    and "0 < desiredRecall"
    and "\<forall>n al el ar er. recall_loc (G n al el ar er) < desiredRecall"
  shows "RunExper G R showf showu AddRestartQty MinExp MaxExp 1 desiredRecall ResFile file_opens
     = Some (Inl (fatal ''Failed to get the desired recall!''))"
proof -
  from exp_loop_terminates [OF assms(3) restart_body_recall [OF assms(5)],
      of R AddRestartQty MinExp init_state]
  obtain s where run: "exp_loop G R AddRestartQty MaxExp MinExp init_state = Some s"
    and i: "recall init_state < desiredRecall \<longrightarrow> recall s < desiredRecall"
    by blast
  from assms(4) i have low: "recall s < desiredRecall" by (simp add: init_state_def)
  from assms(2) have "\<not> MaxExp < MinExp" by simp
  with assms(1) run have "RunExper_search G R AddRestartQty MinExp MaxExp 1 = Some (Inr s)"
    by (simp add: RunExper_search_def)
  with low show ?thesis
    by (simp add: RunExper_def RunExper_report_def LOG_LIB_FATAL_def)
qed

text \<open>C3, amended, with the stand-in grid search, whose recall is 1/2, and target 9/10.\<close>
theorem RunExper_recall_failure_witness:
  "(2 :: 32 word) \<noteq> 0 \<and> (2 :: 32 word) \<le> 2 \<and> (2 :: 32 word) \<noteq> -1 \<and> (0 :: real) < 9 / 10
   \<and> RunExper example_G example_R example_show example_show 3 2 2 1 (9 / 10) [] False
     = Some (Inl (fatal ''Failed to get the desired recall!''))"
proof -
  have h1: "(2 :: 32 word) \<noteq> 0" and h2: "(2 :: 32 word) \<le> 2" and h3: "(2 :: 32 word) \<noteq> -1"
    and h4: "(0 :: real) < 9 / 10"
    by simp_all
  have h5: "\<forall>n al el ar er. recall_loc (example_G n al el ar er) < 9 / 10"
    by (simp add: example_G_def)
  from RunExper_recall_failure [OF h1 h2 h3 h4 h5] h1 h2 h3 h4 show ?thesis by blast
qed

end
